theory Spec2Isabelle
  imports Complex_Main "HOL-Library.Sublist"
begin

section \<open>Strings, numbers and the Python runtime\<close>

text \<open>
  A Python \<open>str\<close> is a sequence of Unicode code points: \<open>len\<close> counts code points and
  \<open>in\<close>, \<open>find\<close> and the \<open>re\<close> module work on them. A string is therefore a list of
  code points, each a natural number. \<open>asc\<close> reads an ASCII literal; the Cyrillic words
  of the program are written out by code point below.
\<close>

type_synonym cp = nat
type_synonym ustr = "cp list"

definition asc :: "string \<Rightarrow> ustr" where
  "asc s = map of_char s"

text \<open>
  A Python \<open>float\<close>: a finite value (every double is a rational number) or one of the
  three special values. Comparing a float with an \<open>int\<close> is exact in Python; every
  comparison with \<open>nan\<close> is false.
\<close>

datatype pyfloat = Fin rat | PInf | NInf | NaN

fun float_gt_int :: "pyfloat \<Rightarrow> int \<Rightarrow> bool" where
  "float_gt_int (Fin q) n = (of_int n < q)"
| "float_gt_int PInf n = True"
| "float_gt_int NInf n = False"
| "float_gt_int NaN n = False"

fun float_lt_int :: "pyfloat \<Rightarrow> int \<Rightarrow> bool" where
  "float_lt_int (Fin q) n = (q < of_int n)"
| "float_lt_int PInf n = False"
| "float_lt_int NInf n = True"
| "float_lt_int NaN n = False"

text \<open>
  The values a decoded JSON document (and the field map of the regex extractor) holds:
  \<open>None\<close>, a \<open>bool\<close>, an \<open>int\<close>, a \<open>float\<close>, a \<open>str\<close>, a list, a dict.
\<close>

datatype jval =
    JNull
  | JBool bool
  | JInt int
  | JNum pyfloat
  | JStr ustr
  | JArr "jval list"
  | JObj "(ustr \<times> jval) list"

type_synonym pydict = "ustr \<rightharpoonup> jval"

text \<open>
  The parts of the Python runtime the program calls and that depend on the Unicode
  character database, on the rounding of \<open>float()\<close> or on the \<open>json\<close> module are
  parameters of the model: every theorem below holds for every runtime.
  \<^item> \<open>isdecimal c\<close>: \<open>c\<close> is matched by \<open>\d\<close>;
  \<^item> \<open>isspace c\<close>: \<open>c\<close> is matched by \<open>\s\<close> and removed by \<open>str.strip()\<close>;
  \<^item> \<open>isdigit c\<close>: the character test behind \<open>str.isdigit()\<close>;
  \<^item> \<open>caseless t\<close>: the pattern characters that the text character \<open>t\<close> matches
    under \<open>re.IGNORECASE\<close>;
  \<^item> \<open>str_lower\<close>, \<open>str_upper\<close>: \<open>str.lower()\<close>, \<open>str.upper()\<close>;
  \<^item> \<open>py_float s\<close>: \<open>float(s)\<close> of a string, \<open>None\<close> when it raises \<open>ValueError\<close>;
  \<^item> \<open>int_float n\<close>: \<open>float(n)\<close> of an \<open>int\<close>, \<open>None\<close> when it raises
    \<open>OverflowError\<close>;
  \<^item> \<open>json_loads s\<close>: \<open>json.loads(s)\<close> of a string that the program cut at a
    \<open>{\<close>, so a dict when it decodes; \<open>None\<close> when it raises \<open>JSONDecodeError\<close>.
\<close>

record pyrt =
  isdecimal :: "cp \<Rightarrow> bool"
  isspace :: "cp \<Rightarrow> bool"
  isdigit :: "cp \<Rightarrow> bool"
  caseless :: "cp \<Rightarrow> cp list"
  str_lower :: "ustr \<Rightarrow> ustr"
  str_upper :: "ustr \<Rightarrow> ustr"
  py_float :: "ustr \<Rightarrow> pyfloat option"
  int_float :: "int \<Rightarrow> pyfloat option"
  json_loads :: "ustr \<Rightarrow> pydict option"

text \<open>\<open>sub in s\<close> on strings: \<open>sub\<close> occurs in \<open>s\<close> as a contiguous run.\<close>

fun contains :: "ustr \<Rightarrow> ustr \<Rightarrow> bool" where
  "contains sub [] = (sub = [])"
| "contains sub (c # cs) = (prefix sub (c # cs) \<or> contains sub cs)"

section \<open>Regular expressions as \<open>re\<close> runs them\<close>

text \<open>
  The \<open>re\<close> module is a backtracking matcher: at a position it explores the ways a
  pattern can match in a fixed order (the left alternative first, a greedy repetition
  longest first, a lazy one shortest first) and takes the first way that lets the whole
  pattern match. \<open>ms r s\<close> lists, in that order, what is left of \<open>s\<close> after each way
  \<open>r\<close> can match a prefix of it. \<open>Eos\<close> is \<open>$\<close>: the end of the string, or just before
  a newline that ends it. A repetition gives up an iteration that consumes nothing.
\<close>

datatype rx =
    Sym "cp \<Rightarrow> bool"
  | Eps
  | Eos
  | Seq rx rx
  | Alt rx rx
  | Star rx
  | Lazy rx

fun ms :: "rx \<Rightarrow> ustr \<Rightarrow> ustr list" where
  "ms (Sym p) s = (case s of [] \<Rightarrow> [] | c # cs \<Rightarrow> if p c then [cs] else [])"
| "ms Eps s = [s]"
| "ms Eos s = (if s = [] \<or> s = [10] then [s] else [])"
| "ms (Seq a b) s = concat (map (ms b) (ms a s))"
| "ms (Alt a b) s = ms a s @ ms b s"
| "ms (Star a) s =
     concat (map (\<lambda>t. if length t < length s then ms (Star a) t else []) (ms a s)) @ [s]"
| "ms (Lazy a) s =
     s # concat (map (\<lambda>t. if length t < length s then ms (Lazy a) t else []) (ms a s))"

text \<open>\<open>r+\<close>, \<open>r+?\<close>, \<open>r?\<close>, \<open>r{n}\<close>, \<open>r{0,n}\<close>, \<open>r{m,n}\<close> and a sequence of patterns.\<close>

definition Plus :: "rx \<Rightarrow> rx" where
  "Plus r = Seq r (Star r)"

definition LazyPlus :: "rx \<Rightarrow> rx" where
  "LazyPlus r = Seq r (Lazy r)"

definition Opt :: "rx \<Rightarrow> rx" where
  "Opt r = Alt r Eps"

fun Times :: "nat \<Rightarrow> rx \<Rightarrow> rx" where
  "Times 0 r = Eps"
| "Times (Suc n) r = Seq r (Times n r)"

fun Upto :: "nat \<Rightarrow> rx \<Rightarrow> rx" where
  "Upto 0 r = Eps"
| "Upto (Suc n) r = Alt (Seq r (Upto n r)) Eps"

definition Between :: "nat \<Rightarrow> nat \<Rightarrow> rx \<Rightarrow> rx" where
  "Between m n r = Seq (Times m r) (Upto (n - m) r)"

fun Seqs :: "rx list \<Rightarrow> rx" where
  "Seqs [] = Eps"
| "Seqs [r] = r"
| "Seqs (r # rs) = Seq r (Seqs rs)"

fun Alts :: "rx list \<Rightarrow> rx" where
  "Alts [] = Sym (\<lambda>c. False)"
| "Alts [r] = r"
| "Alts (r # rs) = Alt r (Alts rs)"

text \<open>
  Character matchers. Without a flag a literal matches itself and a range its members.
  Under \<open>re.IGNORECASE\<close> a text character matches a literal or a range when one of its
  caseless forms is the literal or lies in the range.
\<close>

definition chr :: "cp \<Rightarrow> rx" where
  "chr c = Sym (\<lambda>t. t = c)"

definition chr_i :: "pyrt \<Rightarrow> cp \<Rightarrow> rx" where
  "chr_i U c = Sym (\<lambda>t. c \<in> set (caseless U t))"

definition lit_i :: "pyrt \<Rightarrow> ustr \<Rightarrow> rx" where
  "lit_i U w = Seqs (map (chr_i U) w)"

definition in_ranges :: "(cp \<times> cp) list \<Rightarrow> cp \<Rightarrow> bool" where
  "in_ranges rs c = list_ex (\<lambda>(lo, hi). lo \<le> c \<and> c \<le> hi) rs"

definition in_ranges_i :: "pyrt \<Rightarrow> (cp \<times> cp) list \<Rightarrow> cp \<Rightarrow> bool" where
  "in_ranges_i U rs t = list_ex (in_ranges rs) (caseless U t)"

text \<open>
  Every searched pattern of the program is a concatenation with one capturing group:
  what comes before the group, the group, what comes after it. \<open>match_at\<close> lists the
  ways the pattern matches at the start of \<open>s\<close>, each with the text of group 1 and the
  rest of the input; \<open>search\<close> is \<open>re.search(...).group(1)\<close>: the first way at the
  leftmost position that has one.
\<close>

record pattern =
  before :: rx
  group1 :: rx
  after :: rx

definition match_at :: "pattern \<Rightarrow> ustr \<Rightarrow> (ustr \<times> ustr) list" where
  "match_at p s =
     concat (map (\<lambda>s1.
       concat (map (\<lambda>s2.
         map (\<lambda>s3. (take (length s1 - length s2) s1, s3)) (ms (after p) s2))
       (ms (group1 p) s1)))
     (ms (before p) s))"

fun search :: "pattern \<Rightarrow> ustr \<Rightarrow> ustr option" where
  "search p [] = (case match_at p [] of [] \<Rightarrow> None | (g, _) # _ \<Rightarrow> Some g)"
| "search p (c # cs) =
     (case match_at p (c # cs) of [] \<Rightarrow> search p cs | (g, _) # _ \<Rightarrow> Some g)"

text \<open>\<open>re.match(r, s)\<close> without a group: does \<open>r\<close> match at the start of \<open>s\<close>.\<close>

definition re_match :: "rx \<Rightarrow> ustr \<Rightarrow> bool" where
  "re_match r s = (ms r s \<noteq> [])"

section \<open>The transaction record and the validator\<close>

text \<open>
  The dataclass \<open>TransactionData\<close>. Python does not check the declared types of the
  fields: \<open>parse\<close> makes the amount a \<open>float\<close> and the currency a \<open>str\<close>, and stores
  the other four fields as it finds them in the field map. The record is therefore
  generic in the type of the recipient and of the three optional fields.
  \<open>TransactionData\<close> is the record with the declared types, the one the rules of the
  validator are written for; \<open>ParsedData\<close> is the record as \<open>parse\<close> builds it, any
  decoded value in the four fields.
\<close>

record ('r, 'o) Transaction =
  amount :: pyfloat
  currency :: ustr
  recipient :: 'r
  account_number :: 'o
  iban :: 'o
  description :: 'o

type_synonym TransactionData = "(ustr, ustr option) Transaction"

type_synonym ParsedData = "(jval, jval) Transaction"

text \<open>
  The timestamp of the record reads the wall clock and no rule looks at it; it is left
  out. The messages of the validator are f-strings: a message is kept as its template
  and the values put into it.
\<close>

datatype message =
    UnsupportedCurrency ustr
  | ExceedsLimit pyfloat ustr int
  | BelowMinimum pyfloat ustr int
  | BlockedRecipient ustr
  | RecipientTooShort
  | RecipientTooLong
  | IbanSuspect ustr
  | AccountSuspect ustr
  | LargeAmount
  | LargeCurrencyOperation

record 't verdict =
  is_valid :: bool
  errors :: "message list"
  warnings :: "message list"
  transaction :: 't

definition USD :: ustr where "USD = asc ''USD''"
definition EUR :: ustr where "EUR = asc ''EUR''"
definition RUB :: ustr where "RUB = asc ''RUB''"
definition GBP :: ustr where "GBP = asc ''GBP''"
definition CHF :: ustr where "CHF = asc ''CHF''"
definition JPY :: ustr where "JPY = asc ''JPY''"

definition max_amounts :: "ustr \<rightharpoonup> int" where
  "max_amounts = map_of [(USD, 10000), (EUR, 8500), (RUB, 750000)]"

definition min_amounts :: "ustr \<rightharpoonup> int" where
  "min_amounts = map_of [(USD, 1), (EUR, 1), (RUB, 100)]"

definition supported_currencies :: "ustr list" where
  "supported_currencies = [USD, EUR, RUB, GBP, CHF, JPY]"

text \<open>
  The blocked keywords: sanktsii, sanktsionnyi, blocked, forbidden, terror, ekstremizm,
  narkotik, oruzhie (the Russian words by code point).
\<close>

definition blocked_recipients :: "ustr list" where
  "blocked_recipients =
    [[1089, 1072, 1085, 1082, 1094, 1080, 1080],
     [1089, 1072, 1085, 1082, 1094, 1080, 1086, 1085, 1085, 1099, 1081],
     asc ''blocked'',
     asc ''forbidden'',
     [1090, 1077, 1088, 1088, 1086, 1088],
     [1101, 1082, 1089, 1090, 1088, 1077, 1084, 1080, 1079, 1084],
     [1085, 1072, 1088, 1082, 1086, 1090, 1080, 1082],
     [1086, 1088, 1091, 1078, 1080, 1077]]"

subsection \<open>The structural checks\<close>

definition AZ :: "cp \<Rightarrow> bool" where
  "AZ c = (65 \<le> c \<and> c \<le> 90)"

definition AZ09 :: "cp \<Rightarrow> bool" where
  "AZ09 c = (AZ c \<or> (48 \<le> c \<and> c \<le> 57))"

text \<open>The pattern \<^verbatim>\<open>^[A-Z]{2}\d{2}[A-Z0-9]+$\<close>, matched by \<open>re.match\<close> without flags.\<close>

definition iban_rx :: "pyrt \<Rightarrow> rx" where
  "iban_rx U =
     Seqs [Times 2 (Sym AZ), Times 2 (Sym (isdecimal U)), Plus (Sym AZ09), Eos]"

definition country_lengths :: "ustr \<rightharpoonup> nat" where
  "country_lengths =
     map_of [(asc ''RU'', 33), (asc ''DE'', 22), (asc ''FR'', 27), (asc ''GB'', 22),
             (asc ''US'', 0)]"

definition validate_iban :: "pyrt \<Rightarrow> ustr \<Rightarrow> bool" where
  "validate_iban U iban0 =
     (let iban = str_upper U (filter (\<lambda>c. c \<noteq> 32) iban0) in
      if length iban < 15 \<or> length iban > 34 then False
      else if \<not> re_match (iban_rx U) iban then False
      else (case country_lengths (take 2 iban) of
              Some expected_length \<Rightarrow>
                if expected_length > 0 \<and> length iban \<noteq> expected_length then False
                else True
            | None \<Rightarrow> True))"

text \<open>
  \<open>str.isdigit()\<close> is false on the empty string. The branch for 20-digit accounts
  returns true, as does the last line whenever it is reached.
\<close>

definition str_isdigit :: "pyrt \<Rightarrow> ustr \<Rightarrow> bool" where
  "str_isdigit U s = (s \<noteq> [] \<and> list_all (isdigit U) s)"

definition account_prefixes :: "ustr list" where
  "account_prefixes = [asc ''408'', asc ''407'', asc ''405'', asc ''423'', asc ''426'']"

definition validate_account_number :: "pyrt \<Rightarrow> ustr \<Rightarrow> bool" where
  "validate_account_number U account =
     (let clean_account = filter (\<lambda>c. \<not> (isspace U c \<or> c = 45)) account in
      if \<not> str_isdigit U clean_account then False
      else if length clean_account < 10 \<or> length clean_account > 25 then False
      else if length clean_account = 20
              \<and> list_ex (\<lambda>p. prefix p clean_account) account_prefixes then True
      else length clean_account \<ge> 10)"

subsection \<open>The rules, in the order of the source\<close>

definition currency_warnings :: "TransactionData \<Rightarrow> message list" where
  "currency_warnings t =
     (if currency t \<notin> set supported_currencies
      then [UnsupportedCurrency (currency t)] else [])"

text \<open>
  Both tables have the same keys, so \<open>self.min_amounts[currency]\<close> is found whenever
  the currency is a key of \<open>max_amounts\<close> (lemma \<open>bounds_same_keys\<close>).
\<close>

definition amount_errors :: "TransactionData \<Rightarrow> message list" where
  "amount_errors t =
     (case max_amounts (currency t) of
        None \<Rightarrow> []
      | Some mx \<Rightarrow>
          (if float_gt_int (amount t) mx
           then [ExceedsLimit (amount t) (currency t) mx] else []) @
          (case min_amounts (currency t) of
             None \<Rightarrow> []
           | Some mn \<Rightarrow>
               if float_lt_int (amount t) mn
               then [BelowMinimum (amount t) (currency t) mn] else []))"

text \<open>The loop over the keywords, left by \<open>break\<close> at the first keyword found.\<close>

fun blocked_errors :: "ustr list \<Rightarrow> ustr \<Rightarrow> ustr \<Rightarrow> message list" where
  "blocked_errors [] recipient_lower r = []"
| "blocked_errors (blocked # rest) recipient_lower r =
     (if contains blocked recipient_lower then [BlockedRecipient r]
      else blocked_errors rest recipient_lower r)"

definition length_errors :: "TransactionData \<Rightarrow> message list" where
  "length_errors t = (if length (recipient t) < 2 then [RecipientTooShort] else [])"

definition length_warnings :: "TransactionData \<Rightarrow> message list" where
  "length_warnings t =
     (if length (recipient t) < 2 then []
      else if length (recipient t) > 100 then [RecipientTooLong] else [])"

text \<open>\<open>if transaction.iban:\<close> holds for a string that is present and not empty.\<close>

definition iban_warnings :: "pyrt \<Rightarrow> TransactionData \<Rightarrow> message list" where
  "iban_warnings U t =
     (case iban t of
        None \<Rightarrow> []
      | Some i \<Rightarrow> if i \<noteq> [] \<and> \<not> validate_iban U i then [IbanSuspect i] else [])"

definition account_warnings :: "pyrt \<Rightarrow> TransactionData \<Rightarrow> message list" where
  "account_warnings U t =
     (case account_number t of
        None \<Rightarrow> []
      | Some a \<Rightarrow>
          if a \<noteq> [] \<and> \<not> validate_account_number U a then [AccountSuspect a] else [])"

definition large_warnings :: "TransactionData \<Rightarrow> message list" where
  "large_warnings t =
     (if currency t = RUB \<and> float_gt_int (amount t) 100000 then [LargeAmount]
      else if currency t \<in> set [USD, EUR] \<and> float_gt_int (amount t) 5000
      then [LargeCurrencyOperation] else [])"

definition validate_transaction :: "pyrt \<Rightarrow> TransactionData \<Rightarrow> TransactionData verdict" where
  "validate_transaction U t =
     (let errors =
            amount_errors t
            @ blocked_errors blocked_recipients (str_lower U (recipient t)) (recipient t)
            @ length_errors t;
          warnings =
            currency_warnings t @ length_warnings t @ iban_warnings U t
            @ account_warnings U t @ large_warnings t
      in \<lparr> is_valid = (length errors = 0), errors = errors, warnings = warnings,
           transaction = t \<rparr>)"

section \<open>The parser\<close>

text \<open>
  The exceptions of the pipeline. \<open>AmountNotFound\<close>, \<open>MissingFields\<close> and
  \<open>ExtractionFailed\<close> are the three \<open>ValueError\<close>s the parser raises itself (the last
  carries the text it could not read); \<open>NotAFloat\<close> is the \<open>ValueError\<close> of \<open>float()\<close>
  on a string, \<open>OverflowError\<close> the error of \<open>float()\<close> on an \<open>int\<close> too large.
  \<open>TypeError\<close> and \<open>AttributeError\<close> come from a value of the wrong type: \<open>float()\<close>
  of \<open>None\<close> or of a list, a method of \<open>str\<close> called on something else.
\<close>

datatype exn =
    AmountNotFound
  | MissingFields
  | NotAFloat
  | JSONDecodeError
  | ExtractionFailed ustr
  | OverflowError
  | TypeError
  | AttributeError

subsection \<open>The patterns of \<open>_extract_with_regex\<close>\<close>

text \<open>
  \<^verbatim>\<open>\d+(?:\.\d+)?\<close>, with the matcher of the dot as a parameter: under
  \<open>re.IGNORECASE\<close> every literal of a pattern is matched caselessly.
\<close>

definition number_rx :: "pyrt \<Rightarrow> rx \<Rightarrow> rx" where
  "number_rx U dot =
     Seq (Plus (Sym (isdecimal U))) (Opt (Seq dot (Plus (Sym (isdecimal U)))))"

text \<open>
  The cues of the three currencies: rubl, the rouble sign, rub, RUB; dollar, the dollar
  sign, USD; evro, the euro sign, EUR.
\<close>

definition rub_cues :: "ustr list" where
  "rub_cues = [[1088, 1091, 1073, 1083],
                [8381],
                [1088, 1091, 1073],
                asc ''RUB'']"

definition usd_cues :: "ustr list" where
  "usd_cues = [[1076, 1086, 1083, 1083, 1072, 1088],
                [36],
                asc ''USD'']"

definition eur_cues :: "ustr list" where
  "eur_cues = [[1077, 1074, 1088, 1086],
                [8364],
                asc ''EUR'']"

text \<open>\<^verbatim>\<open>(\d+(?:\.\d+)?)\s*(?:cue|cue|...)\<close>, searched with \<open>re.IGNORECASE\<close>.\<close>

definition amount_pattern :: "pyrt \<Rightarrow> ustr list \<Rightarrow> pattern" where
  "amount_pattern U cues =
     \<lparr> before = Eps,
       group1 = number_rx U (chr_i U 46),
       after = Seq (Star (Sym (isspace U))) (Alts (map (lit_i U) cues)) \<rparr>"

text \<open>\<^verbatim>\<open>(\d+(?:\.\d+)?)\<close>, searched without a flag.\<close>

definition bare_number_pattern :: "pyrt \<Rightarrow> pattern" where
  "bare_number_pattern U =
     \<lparr> before = Eps, group1 = number_rx U (chr 46), after = Eps \<rparr>"

text \<open>The class \<^verbatim>\<open>[:\s]\<close> under \<open>re.IGNORECASE\<close>.\<close>

definition colon_or_space :: "pyrt \<Rightarrow> cp \<Rightarrow> bool" where
  "colon_or_space U t = (in_ranges_i U [(58, 58)] t \<or> isspace U t)"

text \<open>
  The recipient pattern: a marker (poluchatel + soft sign, yu or ya; komu; dlya; na imya;
  recipient; to), \<^verbatim>\<open>[:\s]*\<close>, a lazy run of Cyrillic or Latin letters and
  whitespace as group 1, and a terminator (whitespace, \<open>$\<close>, a comma, na schet, schet,
  IBAN).
\<close>

definition recipient_markers :: "pyrt \<Rightarrow> rx" where
  "recipient_markers U =
     Alts [Seq (lit_i U [1087, 1086, 1083, 1091, 1095, 1072, 1090, 1077, 1083])
               (Sym (in_ranges_i U [(1100, 1100), (1102, 1102), (1103, 1103)])),
           lit_i U [1082, 1086, 1084, 1091],
           lit_i U [1076, 1083, 1103],
           lit_i U [1085, 1072, 32, 1080, 1084, 1103],
           lit_i U (asc ''recipient''),
           lit_i U (asc ''to'')]"

definition name_char :: "pyrt \<Rightarrow> cp \<Rightarrow> bool" where
  "name_char U t =
     (in_ranges_i U [(1040, 1071), (1072, 1103), (65, 90), (97, 122)] t \<or> isspace U t)"

definition recipient_pattern :: "pyrt \<Rightarrow> pattern" where
  "recipient_pattern U =
     \<lparr> before = Seq (recipient_markers U) (Star (Sym (colon_or_space U))),
       group1 = LazyPlus (Sym (name_char U)),
       after = Alts [Sym (isspace U), Eos, chr_i U 44,
                     lit_i U [1085, 1072, 32, 1089, 1095, 1077, 1090],
                     lit_i U [1089, 1095, 1077, 1090],
                     lit_i U (asc ''IBAN'')] \<rparr>"

text \<open>\<^verbatim>\<open>(?:schet|schyot|account)[:\s]*(\d{10,20})\<close>.\<close>

definition account_pattern :: "pyrt \<Rightarrow> pattern" where
  "account_pattern U =
     \<lparr> before = Seq (Alts [lit_i U [1089, 1095, 1077, 1090],
                             lit_i U [1089, 1095, 1105, 1090],
                             lit_i U (asc ''account'')])
                      (Star (Sym (colon_or_space U))),
       group1 = Between 10 20 (Sym (isdecimal U)),
       after = Eps \<rparr>"

text \<open>\<^verbatim>\<open>(?:IBAN|iban)[:\s]*([A-Z]{2}\d{2}[A-Z0-9]{4,30})\<close>.\<close>

definition iban_pattern :: "pyrt \<Rightarrow> pattern" where
  "iban_pattern U =
     \<lparr> before = Seq (Alts [lit_i U (asc ''IBAN''), lit_i U (asc ''iban'')])
                      (Star (Sym (colon_or_space U))),
       group1 = Seqs [Times 2 (Sym (in_ranges_i U [(65, 90)])),
                      Times 2 (Sym (isdecimal U)),
                      Between 4 30 (Sym (in_ranges_i U [(65, 90), (48, 57)]))],
       after = Eps \<rparr>"

text \<open>
  The description pattern: a marker (naznachenie, opisanie, kommentarii, tsel, dlya,
  purpose), \<^verbatim>\<open>[:\s]*\<close> and \<^verbatim>\<open>([^,\n]+)\<close>.
\<close>

definition description_pattern :: "pyrt \<Rightarrow> pattern" where
  "description_pattern U =
     \<lparr> before =
         Seq (Alts [lit_i U [1085, 1072, 1079, 1085, 1072, 1095, 1077, 1085, 1080, 1077],
                    lit_i U [1086, 1087, 1080, 1089, 1072, 1085, 1080, 1077],
                    lit_i U [1082, 1086, 1084, 1084, 1077, 1085, 1090, 1072, 1088, 1080,
                             1081],
                    lit_i U [1094, 1077, 1083, 1100],
                    lit_i U [1076, 1083, 1103],
                    lit_i U (asc ''purpose'')])
             (Star (Sym (colon_or_space U))),
       group1 = Plus (Sym (\<lambda>t. \<not> in_ranges_i U [(44, 44), (10, 10)] t)),
       after = Eps \<rparr>"

subsection \<open>String helpers\<close>

text \<open>\<open>s.strip()\<close>, \<open>s.strip(chars)\<close> and \<^verbatim>\<open>re.sub(r'\s+', ' ', s)\<close>.\<close>

definition strip_where :: "(cp \<Rightarrow> bool) \<Rightarrow> ustr \<Rightarrow> ustr" where
  "strip_where p s = rev (dropWhile p (rev (dropWhile p s)))"

function collapse_spaces :: "pyrt \<Rightarrow> ustr \<Rightarrow> ustr" where
  "collapse_spaces U [] = []"
| "collapse_spaces U (c # cs) =
     (if isspace U c then 32 # collapse_spaces U (dropWhile (isspace U) cs)
      else c # collapse_spaces U cs)"
  by pat_completeness auto
termination
  by (relation "measure (\<lambda>(U, s). length s)")
     (auto simp: length_dropWhile_le less_Suc_eq_le)

text \<open>The sentinel recipient: Neizvestnyi poluchatel (unknown recipient).\<close>

definition unknown_recipient :: ustr where
  "unknown_recipient =
     [1053, 1077, 1080, 1079, 1074, 1077, 1089, 1090, 1085, 1099, 1081, 32,
      1087, 1086, 1083, 1091, 1095, 1072, 1090, 1077, 1083, 1100]"

subsection \<open>\<open>_extract_with_regex\<close>\<close>

text \<open>
  The loop over the currency patterns in their order, left by \<open>break\<close> at the first
  pattern that matches: it gives the text of group 1 and the currency of the pattern.
\<close>

fun first_cued :: "(ustr \<times> pattern) list \<Rightarrow> ustr \<Rightarrow> (ustr \<times> ustr) option" where
  "first_cued [] text = None"
| "first_cued ((curr_type, pattern) # rest) text =
     (case search pattern text of
        Some g \<Rightarrow> Some (g, curr_type)
      | None \<Rightarrow> first_cued rest text)"

definition currency_patterns :: "pyrt \<Rightarrow> (ustr \<times> pattern) list" where
  "currency_patterns U =
     [(RUB, amount_pattern U rub_cues),
      (USD, amount_pattern U usd_cues),
      (EUR, amount_pattern U eur_cues)]"

definition to_amount :: "pyrt \<Rightarrow> ustr \<Rightarrow> ustr \<Rightarrow> exn + (pyfloat \<times> ustr)" where
  "to_amount U g curr_type =
     (case py_float U g of None \<Rightarrow> Inl NotAFloat | Some a \<Rightarrow> Inr (a, curr_type))"

text \<open>The amount and the currency: lines 131 to 152 of the source.\<close>

definition detect_amount :: "pyrt \<Rightarrow> ustr \<Rightarrow> exn + (pyfloat \<times> ustr)" where
  "detect_amount U text =
     (case first_cued (currency_patterns U) text of
        Some (g, curr_type) \<Rightarrow> to_amount U g curr_type
      | None \<Rightarrow>
          (case search (bare_number_pattern U) text of
             Some g \<Rightarrow> to_amount U g RUB
           | None \<Rightarrow> Inl AmountNotFound))"

definition detect_recipient :: "pyrt \<Rightarrow> ustr \<Rightarrow> ustr" where
  "detect_recipient U text =
     (let recipient =
            (case search (recipient_pattern U) text of
               Some g \<Rightarrow> strip_where (isspace U) g
             | None \<Rightarrow> unknown_recipient);
          recipient = collapse_spaces U recipient
      in strip_where (\<lambda>c. c \<in> set (asc ''.,!?;:'')) recipient)"

definition opt_str :: "ustr option \<Rightarrow> jval" where
  "opt_str x = (case x of None \<Rightarrow> JNull | Some s \<Rightarrow> JStr s)"

definition extract_with_regex :: "pyrt \<Rightarrow> ustr \<Rightarrow> exn + pydict" where
  "extract_with_regex U text =
     (case detect_amount U text of
        Inl e \<Rightarrow> Inl e
      | Inr (amount', currency') \<Rightarrow>
          Inr [asc ''amount'' \<mapsto> JNum amount',
               asc ''currency'' \<mapsto> JStr currency',
               asc ''recipient'' \<mapsto> JStr (detect_recipient U text),
               asc ''account_number'' \<mapsto> opt_str (search (account_pattern U) text),
               asc ''iban'' \<mapsto> opt_str (search (iban_pattern U) text),
               asc ''description'' \<mapsto>
                 opt_str (map_option (strip_where (isspace U))
                            (search (description_pattern U) text))])"

subsection \<open>\<open>parse\<close>\<close>

text \<open>
  \<open>text[start:end]\<close> with \<open>start = text.find('{')\<close> and \<open>end = text.rfind('}') + 1\<close>,
  taken only when both braces occur; it is empty when the last \<open>}\<close> comes before the
  first \<open>{\<close>.
\<close>

definition has_braces :: "ustr \<Rightarrow> bool" where
  "has_braces text = (123 \<in> set text \<and> 125 \<in> set text)"

definition json_block :: "ustr \<Rightarrow> ustr" where
  "json_block text =
     (let start = length (takeWhile (\<lambda>c. c \<noteq> 123) text);
          end = length text - length (takeWhile (\<lambda>c. c \<noteq> 125) (rev text))
      in take (end - start) (drop start text))"

text \<open>
  \<open>float(v)\<close>, \<open>v.upper()\<close> and \<open>data.get(k)\<close>, which gives \<open>None\<close> for a key that is
  absent.
\<close>

definition to_float :: "pyrt \<Rightarrow> jval \<Rightarrow> exn + pyfloat" where
  "to_float U v =
     (case v of
        JNum f \<Rightarrow> Inr f
      | JInt n \<Rightarrow> (case int_float U n of None \<Rightarrow> Inl OverflowError | Some f \<Rightarrow> Inr f)
      | JStr s \<Rightarrow> (case py_float U s of None \<Rightarrow> Inl NotAFloat | Some f \<Rightarrow> Inr f)
      | JBool b \<Rightarrow> Inr (Fin (if b then 1 else 0))
      | JNull \<Rightarrow> Inl TypeError
      | JArr xs \<Rightarrow> Inl TypeError
      | JObj kvs \<Rightarrow> Inl TypeError)"

definition to_upper :: "pyrt \<Rightarrow> jval \<Rightarrow> exn + ustr" where
  "to_upper U v = (case v of JStr s \<Rightarrow> Inr (str_upper U s) | _ \<Rightarrow> Inl AttributeError)"

definition dict_get :: "pydict \<Rightarrow> ustr \<Rightarrow> jval" where
  "dict_get data k = (case data k of None \<Rightarrow> JNull | Some v \<Rightarrow> v)"

text \<open>
  The check of the mandatory keys and the construction of the record, its arguments
  evaluated from left to right; \<open>and_then\<close> goes on with a value and stops at an
  exception.
\<close>

definition and_then :: "exn + 'a \<Rightarrow> ('a \<Rightarrow> exn + 'b) \<Rightarrow> exn + 'b" where
  "and_then x f = (case x of Inl e \<Rightarrow> Inl e | Inr v \<Rightarrow> f v)"

definition build :: "pyrt \<Rightarrow> pydict \<Rightarrow> exn + ParsedData" where
  "build U data =
     (case (data (asc ''amount''), data (asc ''currency''), data (asc ''recipient'')) of
        (Some a, Some c, Some r) \<Rightarrow>
          and_then (to_float U a) (\<lambda>amount'.
          and_then (to_upper U c) (\<lambda>currency'.
            Inr \<lparr> amount = amount', currency = currency', recipient = r,
                  account_number = dict_get data (asc ''account_number''),
                  iban = dict_get data (asc ''iban''),
                  description = dict_get data (asc ''description'') \<rparr>))
      | _ \<Rightarrow> Inl MissingFields)"

text \<open>The body of the \<open>try\<close> block of \<open>parse\<close>.\<close>

definition parse_try :: "pyrt \<Rightarrow> ustr \<Rightarrow> exn + ParsedData" where
  "parse_try U text =
     (case (if has_braces text
            then (case json_loads U (json_block text) of
                    None \<Rightarrow> Inl JSONDecodeError | Some data \<Rightarrow> Inr data)
            else extract_with_regex U text) of
        Inl e \<Rightarrow> Inl e
      | Inr data \<Rightarrow> build U data)"

text \<open>
  \<open>except (json.JSONDecodeError, ValueError, KeyError)\<close>: the handler takes the
  \<open>ValueError\<close>s (\<open>JSONDecodeError\<close> is one) and raises \<open>ExtractionFailed\<close>; any other
  exception leaves \<open>parse\<close> as it is.
\<close>

fun caught_by_parse :: "exn \<Rightarrow> bool" where
  "caught_by_parse AmountNotFound = True"
| "caught_by_parse MissingFields = True"
| "caught_by_parse NotAFloat = True"
| "caught_by_parse JSONDecodeError = True"
| "caught_by_parse (ExtractionFailed t) = True"
| "caught_by_parse OverflowError = False"
| "caught_by_parse TypeError = False"
| "caught_by_parse AttributeError = False"

definition parse :: "pyrt \<Rightarrow> ustr \<Rightarrow> exn + ParsedData" where
  "parse U text =
     (case parse_try U text of
        Inr t \<Rightarrow> Inr t
      | Inl e \<Rightarrow> if caught_by_parse e then Inl (ExtractionFailed text) else Inl e)"

section \<open>The processor\<close>

text \<open>
  \<open>self.llm\<close> is absent or a text generator. The prompt is a fixed template around the
  text, so the generator is a function of the text: its response, or \<open>None\<close> when the
  call raises. The results carry no timestamp here, and the log is not modelled.
\<close>

record processor =
  llm :: "(ustr \<Rightarrow> ustr option) option"

datatype processing = LLM | Regex | Error

record result =
  transaction_data :: "ParsedData option"
  validation_result :: "ParsedData verdict option"
  error :: "exn option"
  processing_method :: processing

text \<open>
  \<open>validate_transaction\<close> on the record \<open>parse\<close> built. The rules call
  \<open>recipient.lower()\<close>, then, for an IBAN that is true as a condition,
  \<open>iban.replace(...)\<close>, then, for an account number that is true as a condition,
  \<open>re.sub(..., account)\<close>: the first two raise \<open>AttributeError\<close> and the last raises
  \<open>TypeError\<close> on a value that is not a string. Otherwise the rules run as on the record
  with the declared types; they do not read the description. The verdict carries the
  record it was given.
\<close>

fun truthy :: "jval \<Rightarrow> bool" where
  "truthy JNull = False"
| "truthy (JBool b) = b"
| "truthy (JInt n) = (n \<noteq> 0)"
| "truthy (JNum f) = (f \<noteq> Fin 0)"
| "truthy (JStr s) = (s \<noteq> [])"
| "truthy (JArr xs) = (xs \<noteq> [])"
| "truthy (JObj kvs) = (kvs \<noteq> [])"

definition checked_str :: "exn \<Rightarrow> jval \<Rightarrow> exn + ustr option" where
  "checked_str e v =
     (if \<not> truthy v then Inr None
      else (case v of JStr s \<Rightarrow> Inr (Some s) | _ \<Rightarrow> Inl e))"

definition validate_parsed :: "pyrt \<Rightarrow> ParsedData \<Rightarrow> exn + ParsedData verdict" where
  "validate_parsed U d =
     (case recipient d of
        JStr r \<Rightarrow>
          and_then (checked_str AttributeError (iban d)) (\<lambda>iban'.
          and_then (checked_str TypeError (account_number d)) (\<lambda>account'.
            let v = validate_transaction U
                      \<lparr> amount = amount d, currency = currency d, recipient = r,
                        account_number = account', iban = iban', description = None \<rparr>
            in Inr \<lparr> is_valid = is_valid v, errors = errors v, warnings = warnings v,
                     transaction = d \<rparr>))
      | _ \<Rightarrow> Inl AttributeError)"

text \<open>
  \<open>_extract_with_llm\<close>: any exception of the call or of parsing the response falls
  back to parsing the text itself.
\<close>

definition extract_with_llm ::
  "pyrt \<Rightarrow> (ustr \<Rightarrow> ustr option) \<Rightarrow> ustr \<Rightarrow> exn + ParsedData" where
  "extract_with_llm U f text =
     (case f text of
        None \<Rightarrow> parse U text
      | Some response \<Rightarrow>
          (case parse U response of Inr t \<Rightarrow> Inr t | Inl e \<Rightarrow> parse U text))"

text \<open>
  The extraction step of \<open>process_transaction\<close>, and the function with its handler:
  \<open>except Exception\<close> takes the exceptions of the extraction and of the validation.
\<close>

definition extraction :: "pyrt \<Rightarrow> processor \<Rightarrow> ustr \<Rightarrow> exn + ParsedData" where
  "extraction U P text =
     (case llm P of Some f \<Rightarrow> extract_with_llm U f text | None \<Rightarrow> parse U text)"

definition process_transaction :: "pyrt \<Rightarrow> processor \<Rightarrow> ustr \<Rightarrow> result" where
  "process_transaction U P text =
     (case and_then (extraction U P text) (\<lambda>transaction_data.
           and_then (validate_parsed U transaction_data) (\<lambda>validation_result.
             Inr (transaction_data, validation_result))) of
        Inr (transaction_data', validation_result') \<Rightarrow>
          \<lparr> transaction_data = Some transaction_data',
            validation_result = Some validation_result',
            error = None,
            processing_method = (if llm P \<noteq> None then LLM else Regex) \<rparr>
      | Inl e \<Rightarrow>
          \<lparr> transaction_data = None, validation_result = None, error = Some e,
            processing_method = Error \<rparr>)"

text \<open>\<open>batch_process\<close>: the loop appends one result for each text, in order.\<close>

fun batch_loop :: "pyrt \<Rightarrow> processor \<Rightarrow> ustr list \<Rightarrow> result list \<Rightarrow> result list" where
  "batch_loop U P [] results = results"
| "batch_loop U P (text # texts) results =
     batch_loop U P texts (results @ [process_transaction U P text])"

definition batch_process :: "pyrt \<Rightarrow> processor \<Rightarrow> ustr list \<Rightarrow> result list" where
  "batch_process U P texts = batch_loop U P texts []"

section \<open>The declarative reading of a pattern\<close>

text \<open>
  \<open>mt r s t\<close>: the pattern \<open>r\<close> matches a prefix of \<open>s\<close> and leaves \<open>t\<close>. This is what a
  pattern means, without the order of the attempts; the matcher \<open>ms\<close> is compared with it
  below.
\<close>

declare ms.simps(6) [simp del] ms.simps(7) [simp del]

inductive mt :: "rx \<Rightarrow> ustr \<Rightarrow> ustr \<Rightarrow> bool" where
  mt_Sym: "p c \<Longrightarrow> mt (Sym p) (c # cs) cs"
| mt_Eps: "mt Eps s s"
| mt_Eos: "s = [] \<or> s = [10] \<Longrightarrow> mt Eos s s"
| mt_Seq: "mt a s t \<Longrightarrow> mt b t u \<Longrightarrow> mt (Seq a b) s u"
| mt_AltL: "mt a s t \<Longrightarrow> mt (Alt a b) s t"
| mt_AltR: "mt b s t \<Longrightarrow> mt (Alt a b) s t"
| mt_Star0: "mt (Star a) s s"
| mt_StarS: "mt a s t \<Longrightarrow> mt (Star a) t u \<Longrightarrow> mt (Star a) s u"
| mt_Lazy0: "mt (Lazy a) s s"
| mt_LazyS: "mt a s t \<Longrightarrow> mt (Lazy a) t u \<Longrightarrow> mt (Lazy a) s u"

section \<open>Observers and examples\<close>

text \<open>
  A runtime to run the examples with: ASCII digits and whitespace, the case pairs of the
  Latin and the Russian alphabet, a reader of decimal numerals, and a JSON decoder that
  knows the empty object only.
\<close>

definition lower_cp :: "cp \<Rightarrow> cp" where
  "lower_cp c =
     (if (65 \<le> c \<and> c \<le> 90) \<or> (1040 \<le> c \<and> c \<le> 1071) then c + 32
      else if c = 1025 then 1105 else c)"

definition upper_cp :: "cp \<Rightarrow> cp" where
  "upper_cp c =
     (if (97 \<le> c \<and> c \<le> 122) \<or> (1072 \<le> c \<and> c \<le> 1103) then c - 32
      else if c = 1105 then 1025 else c)"

definition ascii_digit :: "cp \<Rightarrow> bool" where
  "ascii_digit c = (48 \<le> c \<and> c \<le> 57)"

definition ascii_space :: "cp \<Rightarrow> bool" where
  "ascii_space c = (c \<in> set [9, 10, 11, 12, 13, 28, 29, 30, 31, 32])"

definition dec_val :: "ustr \<Rightarrow> nat" where
  "dec_val s = foldl (\<lambda>a c. 10 * a + (c - 48)) 0 s"

definition read_float :: "ustr \<Rightarrow> pyfloat option" where
  "read_float s =
     (let ip = takeWhile ascii_digit s; r = dropWhile ascii_digit s in
      if ip = [] then None
      else (case r of
              [] \<Rightarrow> Some (Fin (of_nat (dec_val ip)))
            | d # fp \<Rightarrow>
                if d = 46 \<and> fp \<noteq> [] \<and> list_all ascii_digit fp
                then Some (Fin (of_nat (dec_val ip) + of_nat (dec_val fp) / 10 ^ length fp))
                else None))"

definition ex_rt :: pyrt where
  "ex_rt = \<lparr> isdecimal = ascii_digit, isspace = ascii_space, isdigit = ascii_digit,
             caseless = (\<lambda>t. [t, lower_cp t, upper_cp t]),
             str_lower = map lower_cp, str_upper = map upper_cp,
             py_float = read_float,
             int_float = (\<lambda>n. if \<bar>n\<bar> < 2 ^ 1024 then Some (Fin (of_int n)) else None),
             json_loads = (\<lambda>s. if s = asc ''{}'' then Some Map.empty else None) \<rparr>"

fun is_exceeds :: "message \<Rightarrow> bool" where
  "is_exceeds (ExceedsLimit a c n) = True"
| "is_exceeds m = False"

fun is_below :: "message \<Rightarrow> bool" where
  "is_below (BelowMinimum a c n) = True"
| "is_below m = False"

fun is_blocked :: "message \<Rightarrow> bool" where
  "is_blocked (BlockedRecipient r) = True"
| "is_blocked m = False"

definition configured_bounds :: "ustr \<Rightarrow> (int \<times> int) option" where
  "configured_bounds c =
     (if c = asc ''USD'' then Some (10000, 1)
      else if c = asc ''EUR'' then Some (8500, 1)
      else if c = asc ''RUB'' then Some (750000, 100)
      else None)"

definition rub_payment :: "rat \<Rightarrow> TransactionData" where
  "rub_payment a = \<lparr> amount = Fin a, currency = asc ''RUB'', recipient = asc ''Ivanov'',
       account_number = None, iban = None, description = None \<rparr>"

definition sanctioned_payment :: "rat \<Rightarrow> TransactionData" where
  "sanctioned_payment a = \<lparr> amount = Fin a, currency = asc ''RUB'',
       recipient = [1054, 1054, 1054, 32, 1057, 1072, 1085, 1082, 1094, 1080, 1080, 32,
                    1058, 1077, 1088, 1088, 1086, 1088],
       account_number = None, iban = None, description = None \<rparr>"

fun is_unsupported :: "message \<Rightarrow> bool" where
  "is_unsupported (UnsupportedCurrency c) = True"
| "is_unsupported m = False"

definition jpy_payment :: TransactionData where
  "jpy_payment = \<lparr> amount = Fin 1000, currency = asc ''JPY'', recipient = asc ''Ivanov'',
       account_number = None, iban = None, description = None \<rparr>"

text \<open>
  The shape of an IBAN in the words of the specification (two letters, two digits, one or
  more letters or digits; a newline may end the string, as \<open>$\<close> allows), the table of
  exact lengths, and observers that tell the kinds of message apart.
\<close>

definition iban_shape :: "pyrt \<Rightarrow> ustr \<Rightarrow> bool" where
  "iban_shape U s =
     (let body = (if s \<noteq> [] \<and> last s = 10 then butlast s else s) in
      5 \<le> length body
      \<and> list_all AZ (take 2 body)
      \<and> list_all (isdecimal U) (take 2 (drop 2 body))
      \<and> list_all AZ09 (drop 4 body))"

definition exact_length :: "ustr \<Rightarrow> nat option" where
  "exact_length country_code =
     (if country_code = asc ''RU'' then Some 33
      else if country_code = asc ''DE'' then Some 22
      else if country_code = asc ''FR'' then Some 27
      else if country_code = asc ''GB'' then Some 22
      else None)"

fun is_iban_message :: "message \<Rightarrow> bool" where
  "is_iban_message (IbanSuspect i) = True"
| "is_iban_message m = False"

definition iban_payment :: "ustr \<Rightarrow> TransactionData" where
  "iban_payment i = \<lparr> amount = Fin 5000, currency = asc ''EUR'', recipient = asc ''Weber'',
       account_number = None, iban = Some i, description = None \<rparr>"

text \<open>
  For the parser: the result of a failed item, the first numeric token of a text in the
  words of the specification (the first run of digits, with a fraction when a dot and a
  digit follow it), patterns without \<open>$\<close>, strings a pattern matches in full, the
  assumption that \<open>float()\<close> reads every string the number pattern matches, and the
  occurrence of a recipient marker in a text.
\<close>

definition error_result :: "exn \<Rightarrow> result" where
  "error_result e = \<lparr> transaction_data = None, validation_result = None, error = Some e,
       processing_method = Error \<rparr>"

definition after_fraction :: "pyrt \<Rightarrow> ustr \<Rightarrow> ustr" where
  "after_fraction U x =
     (case x of
        d # f # r \<Rightarrow> if d = 46 \<and> isdecimal U f then dropWhile (isdecimal U) r else x
      | _ \<Rightarrow> x)"

definition token_at :: "pyrt \<Rightarrow> ustr \<Rightarrow> ustr" where
  "token_at U s = take (length s - length (after_fraction U (dropWhile (isdecimal U) s))) s"

definition numeric_prefix :: "pyrt \<Rightarrow> ustr \<Rightarrow> ustr" where
  "numeric_prefix U s =
     (let whole = takeWhile (isdecimal U) s; r = dropWhile (isdecimal U) s in
      case r of
        d # f # _ \<Rightarrow>
          if d = 46 \<and> isdecimal U f then whole @ 46 # takeWhile (isdecimal U) (tl r)
          else whole
      | _ \<Rightarrow> whole)"

definition first_numeric_token :: "pyrt \<Rightarrow> ustr \<Rightarrow> ustr option" where
  "first_numeric_token U text =
     (let s = dropWhile (\<lambda>c. \<not> isdecimal U c) text in
      if s = [] then None else Some (numeric_prefix U s))"

fun eos_free :: "rx \<Rightarrow> bool" where
  "eos_free (Sym p) = True"
| "eos_free Eps = True"
| "eos_free Eos = False"
| "eos_free (Seq a b) = (eos_free a \<and> eos_free b)"
| "eos_free (Alt a b) = (eos_free a \<and> eos_free b)"
| "eos_free (Star a) = eos_free a"
| "eos_free (Lazy a) = eos_free a"

definition full_match :: "rx \<Rightarrow> ustr \<Rightarrow> bool" where
  "full_match r g = ([] \<in> set (ms r g))"

definition float_reads_numbers :: "pyrt \<Rightarrow> bool" where
  "float_reads_numbers U =
     (\<forall>g. full_match (number_rx U (chr_i U 46)) g \<or> full_match (number_rx U (chr 46)) g
        \<longrightarrow> py_float U g \<noteq> None)"

definition marker_found :: "pyrt \<Rightarrow> ustr \<Rightarrow> bool" where
  "marker_found U text = list_ex (re_match (recipient_markers U)) (suffixes text)"

definition regex_record :: "pyrt \<Rightarrow> ustr \<Rightarrow> pyfloat \<Rightarrow> ustr \<Rightarrow> ParsedData" where
  "regex_record U text a c =
     \<lparr> amount = a, currency = str_upper U c, recipient = JStr (detect_recipient U text),
       account_number = opt_str (search (account_pattern U) text),
       iban = opt_str (search (iban_pattern U) text),
       description = opt_str (map_option (strip_where (isspace U))
                                (search (description_pattern U) text)) \<rparr>"

text \<open>
  Example inputs: a text without a number, a text with a bare number, the parsing test
  case of the repository that writes the dollar sign before the number, a batch, and
  processors: without a generator, with one whose call fails, with one that answers
  with a transfer, and with one whose answer holds no amount.
\<close>

definition no_amount_text :: ustr where
  "no_amount_text = asc ''pay Bob''"

definition bare_text :: ustr where
  "bare_text = asc ''pay 12.75''"

definition usd_text :: ustr where
  "usd_text = asc ''Transfer $2500 to John Smith account 1234567890123456789''"

definition batch_texts :: "ustr list" where
  "batch_texts = [bare_text, no_amount_text, asc ''send 100 USD to Ann'']"

definition regex_only :: processor where
  "regex_only = \<lparr> llm = None \<rparr>"

definition failing_llm :: processor where
  "failing_llm = \<lparr> llm = Some (\<lambda>t. None) \<rparr>"

definition answering_llm :: processor where
  "answering_llm = \<lparr> llm = Some (\<lambda>t. Some (asc ''7 EUR to Zed'')) \<rparr>"

definition babbling_llm :: processor where
  "babbling_llm = \<lparr> llm = Some (\<lambda>t. Some (asc ''hello'')) \<rparr>"

section \<open>The matcher and the declarative reading agree\<close>

lemma ms_Star_iff:
  "t \<in> set (ms (Star a) s) \<longleftrightarrow>
     t = s \<or> (\<exists>u \<in> set (ms a s). length u < length s \<and> t \<in> set (ms (Star a) u))"
  by (subst ms.simps(6)) auto

lemma ms_Lazy_iff:
  "t \<in> set (ms (Lazy a) s) \<longleftrightarrow>
     t = s \<or> (\<exists>u \<in> set (ms a s). length u < length s \<and> t \<in> set (ms (Lazy a) u))"
  by (subst ms.simps(7)) auto

lemma mt_suffix: "mt r s t \<Longrightarrow> suffix t s"
  by (induction rule: mt.induct) (auto intro: suffix_ConsI suffix_order.trans)

lemma mt_same_length:
  assumes "mt r s t" and "length s \<le> length t"
  shows "t = s"
proof -
  from assms(1) have "suffix t s" by (rule mt_suffix)
  then obtain w where "s = w @ t" unfolding suffix_def by blast
  with assms(2) show ?thesis by simp
qed

lemma ms_sound: "t \<in> set (ms r s) \<Longrightarrow> mt r s t"
proof (induction r s arbitrary: t rule: ms.induct)
  case (1 p s) then show ?case by (cases s) (auto split: if_splits intro: mt.intros)
next
  case (2 s) then show ?case by (auto intro: mt.intros)
next
  case (3 s) then show ?case by (auto split: if_splits intro: mt.intros)
next
  case (4 a b s) then show ?case by (auto intro: mt.intros)
next
  case (5 a b s) then show ?case by (auto intro: mt.intros)
next
  case (6 a s)
  from 6(3) have "t = s \<or> (\<exists>u \<in> set (ms a s). length u < length s \<and> t \<in> set (ms (Star a) u))"
    by (simp only: ms_Star_iff [of t a s])
  then show ?case using 6(1,2) by (blast intro: mt.intros)
next
  case (7 a s)
  from 7(3) have "t = s \<or> (\<exists>u \<in> set (ms a s). length u < length s \<and> t \<in> set (ms (Lazy a) u))"
    by (simp only: ms_Lazy_iff [of t a s])
  then show ?case using 7(1,2) by (blast intro: mt.intros)
qed

lemma ms_complete: "mt r s t \<Longrightarrow> t \<in> set (ms r s)"
proof (induction rule: mt.induct)
  case (mt_Star0 a s)
  show ?case by (subst ms_Star_iff) simp
next
  case (mt_StarS a s t u)
  show ?case
  proof (cases "length t < length s")
    case True
    with mt_StarS show ?thesis by (subst ms_Star_iff) blast
  next
    case False
    with mt_StarS.hyps(1) have "t = s" by (simp add: mt_same_length)
    with mt_StarS show ?thesis by simp
  qed
next
  case (mt_Lazy0 a s)
  show ?case by (subst ms_Lazy_iff) simp
next
  case (mt_LazyS a s t u)
  show ?case
  proof (cases "length t < length s")
    case True
    with mt_LazyS show ?thesis by (subst ms_Lazy_iff) blast
  next
    case False
    with mt_LazyS.hyps(1) have "t = s" by (simp add: mt_same_length)
    with mt_LazyS show ?thesis by simp
  qed
qed auto

lemma ms_iff_mt: "t \<in> set (ms r s) \<longleftrightarrow> mt r s t"
  using ms_sound ms_complete by blast

inductive_simps mt_Sym_iff: "mt (Sym p) s t"

inductive_simps mt_Eps_iff: "mt Eps s t"

inductive_simps mt_Eos_iff: "mt Eos s t"

inductive_simps mt_Seq_iff: "mt (Seq a b) s t"

inductive_simps mt_Alt_iff: "mt (Alt a b) s t"

lemma mt_Star_Sym_run:
  assumes "mt r s t" and "r = Star (Sym p)"
  shows "\<exists>w. s = w @ t \<and> list_all p w"
  using assms
proof (induction rule: mt.induct)
  case (mt_Star0 a s)
  then show ?case by simp
next
  case (mt_StarS a s t u)
  then obtain c where "s = c # t" "p c" by (auto simp: mt_Sym_iff)
  moreover from mt_StarS obtain w where "t = w @ u" "list_all p w" by auto
  ultimately have "s = (c # w) @ u \<and> list_all p (c # w)" by simp
  then show ?case by blast
qed simp_all

lemma mt_Star_Sym_intro: "list_all p w \<Longrightarrow> mt (Star (Sym p)) (w @ t) t"
  by (induction w) (auto intro: mt.intros)

lemma mt_Star_Sym_iff: "mt (Star (Sym p)) s t \<longleftrightarrow> (\<exists>w. s = w @ t \<and> list_all p w)"
  using mt_Star_Sym_run mt_Star_Sym_intro by blast

lemma re_match_iff: "re_match r s \<longleftrightarrow> (\<exists>t. mt r s t)"
proof -
  have "ms r s \<noteq> [] \<longleftrightarrow> (\<exists>t. t \<in> set (ms r s))" by (cases "ms r s") auto
  then show ?thesis by (simp add: re_match_def ms_iff_mt)
qed

section \<open>The validator\<close>

lemma bounds_same_keys: "(max_amounts c = None) = (min_amounts c = None)"
  by (simp add: max_amounts_def min_amounts_def)

lemma bounds_tables:
  "configured_bounds c =
     (case max_amounts c of None \<Rightarrow> None
      | Some mx \<Rightarrow> (case min_amounts c of None \<Rightarrow> None | Some mn \<Rightarrow> Some (mx, mn)))"
  by (simp add: configured_bounds_def max_amounts_def min_amounts_def USD_def EUR_def RUB_def asc_def)

lemma blocked_errors_cases:
  "blocked_errors bs rl r = [] \<or> blocked_errors bs rl r = [BlockedRecipient r]"
  by (induction bs) auto

lemma blocked_errors_iff:
  "blocked_errors bs rl r = (if \<exists>b \<in> set bs. contains b rl then [BlockedRecipient r] else [])"
  by (induction bs) auto

lemma filter_exceeds_blocked [simp]: "filter is_exceeds (blocked_errors bs rl r) = []"
  by (simp add: blocked_errors_iff)

lemma filter_below_blocked [simp]: "filter is_below (blocked_errors bs rl r) = []"
  by (simp add: blocked_errors_iff)

lemma filter_blocked_amount [simp]: "filter is_blocked (amount_errors t) = []"
  by (simp add: amount_errors_def split: option.splits)

lemma errors_validate:
  "errors (validate_transaction U t) =
     amount_errors t
     @ blocked_errors blocked_recipients (str_lower U (recipient t)) (recipient t)
     @ length_errors t"
  by (simp add: validate_transaction_def Let_def)

lemma amount_errors_bounds:
  "amount_errors t =
     (case configured_bounds (currency t) of
        None \<Rightarrow> []
      | Some (mx, mn) \<Rightarrow>
          (if float_gt_int (amount t) mx then [ExceedsLimit (amount t) (currency t) mx] else [])
          @ (if float_lt_int (amount t) mn then [BelowMinimum (amount t) (currency t) mn] else []))"
proof (cases "max_amounts (currency t)")
  case None
  then have "min_amounts (currency t) = None" using bounds_same_keys by blast
  with None show ?thesis by (simp add: amount_errors_def bounds_tables)
next
  case (Some mx)
  then obtain mn where "min_amounts (currency t) = Some mn"
    using bounds_same_keys [of "currency t"] by (cases "min_amounts (currency t)") auto
  with Some show ?thesis by (simp add: amount_errors_def bounds_tables)
qed

text \<open>
  Claim C1. For a record whose currency has configured bounds (USD: max 10000, min 1;
  EUR: max 8500, min 1; RUB: max 750000, min 100) the errors of \<open>validate_transaction\<close>
  hold the exceeds-limit message exactly when the amount is strictly greater than the
  max and the below-minimum message exactly when it is strictly less than the min, each
  once; for every other currency they hold neither. The bounds are written once more,
  from the words of the claim, as \<open>configured_bounds\<close>.
\<close>

theorem validate_amount_bounds:
  "filter is_exceeds (errors (validate_transaction U t)) =
     (case configured_bounds (currency t) of
        None \<Rightarrow> []
      | Some (mx, mn) \<Rightarrow>
          if float_gt_int (amount t) mx then [ExceedsLimit (amount t) (currency t) mx] else [])
   \<and> filter is_below (errors (validate_transaction U t)) =
     (case configured_bounds (currency t) of
        None \<Rightarrow> []
      | Some (mx, mn) \<Rightarrow>
          if float_lt_int (amount t) mn then [BelowMinimum (amount t) (currency t) mn] else [])"
  by (simp add: errors_validate amount_errors_bounds length_errors_def split: option.splits)

lemma contains_iff: "contains sub s \<longleftrightarrow> (\<exists>p q. s = p @ sub @ q)"
proof (induction s)
  case Nil
  then show ?case by auto
next
  case (Cons c cs)
  show ?case
  proof
    assume "contains sub (c # cs)"
    then consider "prefix sub (c # cs)" | "contains sub cs" by auto
    then show "\<exists>p q. c # cs = p @ sub @ q"
    proof cases
      case 1
      then obtain q where "c # cs = sub @ q" by (auto simp: prefix_def)
      then have "c # cs = [] @ sub @ q" by simp
      then show ?thesis by blast
    next
      case 2
      with Cons obtain p q where "cs = p @ sub @ q" by blast
      then have "c # cs = (c # p) @ sub @ q" by simp
      then show ?thesis by blast
    qed
  next
    assume "\<exists>p q. c # cs = p @ sub @ q"
    then obtain p q where pq: "c # cs = p @ sub @ q" by blast
    show "contains sub (c # cs)"
    proof (cases p)
      case Nil
      with pq have "prefix sub (c # cs)" by (simp add: prefix_def)
      then show ?thesis by simp
    next
      case (Cons a p')
      with pq have "cs = p' @ sub @ q" by simp
      with Cons.IH show ?thesis by auto
    qed
  qed
qed

lemma is_valid_validate:
  "is_valid (validate_transaction U t) = (errors (validate_transaction U t) = [])"
  by (simp add: validate_transaction_def Let_def)

text \<open>
  Claim C2. When the lower-cased recipient contains a keyword of the blocked list, the
  errors of \<open>validate_transaction\<close> hold the blocked-recipient message, whatever the
  amount is, and hold it once however many keywords occur; otherwise they do not hold
  it. (\<open>contains\<close> is the substring test, lemma \<open>contains_iff\<close>.)
\<close>

theorem validate_blocked_recipient:
  "filter is_blocked (errors (validate_transaction U t)) =
     (if list_ex (\<lambda>b. contains b (str_lower U (recipient t))) blocked_recipients
      then [BlockedRecipient (recipient t)] else [])"
  by (simp add: errors_validate blocked_errors_iff length_errors_def list_ex_iff)

lemma ex_rt_sel [simp]:
  "isdecimal ex_rt = ascii_digit" "isspace ex_rt = ascii_space" "isdigit ex_rt = ascii_digit"
  "caseless ex_rt = (\<lambda>t. [t, lower_cp t, upper_cp t])"
  "str_lower ex_rt = map lower_cp" "str_upper ex_rt = map upper_cp"
  "py_float ex_rt = read_float"
  "int_float ex_rt = (\<lambda>n. if \<bar>n\<bar> < 2 ^ 1024 then Some (Fin (of_int n)) else None)"
  "json_loads ex_rt = (\<lambda>s. if s = asc ''{}'' then Some Map.empty else None)"
  by (simp_all add: ex_rt_def)

theorem validate_amount_bounds_witness:
  "errors (validate_transaction ex_rt (rub_payment 15000)) = []
   \<and> errors (validate_transaction ex_rt (rub_payment 800000))
       = [ExceedsLimit (Fin 800000) (asc ''RUB'') 750000]
   \<and> errors (validate_transaction ex_rt (rub_payment (1 / 2)))
       = [BelowMinimum (Fin (1 / 2)) (asc ''RUB'') 100]"
  using validate_amount_bounds [of ex_rt "rub_payment 15000"]
        validate_amount_bounds [of ex_rt "rub_payment 800000"]
        validate_amount_bounds [of ex_rt "rub_payment (1 / 2)"]
  by (simp add: errors_validate amount_errors_bounds configured_bounds_def rub_payment_def
        blocked_errors_iff blocked_recipients_def length_errors_def lower_cp_def asc_def)

theorem validate_blocked_recipient_witness:
  "filter is_blocked (errors (validate_transaction ex_rt (sanctioned_payment 15000)))
     = [BlockedRecipient (recipient (sanctioned_payment 15000))]
   \<and> filter is_blocked (errors (validate_transaction ex_rt (sanctioned_payment 800000)))
     = [BlockedRecipient (recipient (sanctioned_payment 800000))]"
  using validate_blocked_recipient [of ex_rt "sanctioned_payment 15000"]
        validate_blocked_recipient [of ex_rt "sanctioned_payment 800000"]
  by (simp add: sanctioned_payment_def blocked_recipients_def lower_cp_def asc_def)

lemma warnings_validate:
  "warnings (validate_transaction U t) =
     currency_warnings t @ length_warnings t @ iban_warnings U t
     @ account_warnings U t @ large_warnings t"
  by (simp add: validate_transaction_def Let_def)

theorem jpy_payment_no_warning:
  "warnings (validate_transaction ex_rt jpy_payment) = []
   \<and> errors (validate_transaction ex_rt jpy_payment) = []
   \<and> is_valid (validate_transaction ex_rt jpy_payment)"
  by (simp add: validate_transaction_def Let_def jpy_payment_def amount_errors_def
        max_amounts_def USD_def EUR_def RUB_def JPY_def GBP_def CHF_def asc_def
        blocked_errors_iff blocked_recipients_def length_errors_def lower_cp_def
        currency_warnings_def supported_currencies_def length_warnings_def
        iban_warnings_def account_warnings_def large_warnings_def)

text \<open>
  Claim C5, amended. JPY is in the list of supported currencies. A JPY record whose
  recipient has at least two characters and no blocked keyword has no errors, is valid,
  and carries no unsupported-currency warning; its only warnings are those of the
  recipient length, the IBAN and the account number.
\<close>

theorem validate_jpy:
  assumes "currency t = asc ''JPY''"
    and "2 \<le> length (recipient t)"
    and "\<not> list_ex (\<lambda>b. contains b (str_lower U (recipient t))) blocked_recipients"
  shows "errors (validate_transaction U t) = []
     \<and> is_valid (validate_transaction U t)
     \<and> filter is_unsupported (warnings (validate_transaction U t)) = []
     \<and> warnings (validate_transaction U t)
         = length_warnings t @ iban_warnings U t @ account_warnings U t"
proof -
  have e: "errors (validate_transaction U t) = []"
    using assms
    by (simp add: errors_validate amount_errors_bounds configured_bounds_def asc_def
          blocked_errors_iff length_errors_def list_ex_iff)
  have w: "warnings (validate_transaction U t)
         = length_warnings t @ iban_warnings U t @ account_warnings U t"
    using assms(1)
    by (simp add: warnings_validate currency_warnings_def supported_currencies_def
          large_warnings_def USD_def EUR_def RUB_def JPY_def asc_def)
  have u: "filter is_unsupported (length_warnings t @ iban_warnings U t @ account_warnings U t) = []"
    by (simp add: length_warnings_def iban_warnings_def account_warnings_def
          split: option.splits)
  from e w u show ?thesis by (simp add: is_valid_validate)
qed

theorem validate_jpy_witness:
  "currency jpy_payment = asc ''JPY'' \<and> 2 \<le> length (recipient jpy_payment)
   \<and> errors (validate_transaction ex_rt jpy_payment) = []
   \<and> is_valid (validate_transaction ex_rt jpy_payment)
   \<and> filter is_unsupported (warnings (validate_transaction ex_rt jpy_payment)) = []"
proof -
  have c: "currency jpy_payment = asc ''JPY''" by (simp add: jpy_payment_def)
  have l: "2 \<le> length (recipient jpy_payment)" by (simp add: jpy_payment_def asc_def)
  have b: "\<not> list_ex (\<lambda>b. contains b (str_lower ex_rt (recipient jpy_payment)))
              blocked_recipients"
    by (simp add: jpy_payment_def blocked_recipients_def lower_cp_def asc_def)
  from validate_jpy [OF c l b] c l show ?thesis by blast
qed

subsection \<open>The IBAN check\<close>

lemma mt_iban_rx:
  "mt (iban_rx U) s t \<longleftrightarrow>
     (\<exists>a b c d e w. s = a # b # c # d # e # w @ t \<and> AZ a \<and> AZ b \<and> isdecimal U c
        \<and> isdecimal U d \<and> AZ09 e \<and> list_all AZ09 w \<and> (t = [] \<or> t = [10]))"
  unfolding iban_rx_def Plus_def
  by (simp add: eval_nat_numeral mt_Sym_iff mt_Eps_iff mt_Eos_iff mt_Seq_iff mt_Star_Sym_iff)
     blast

lemma not_AZ09_newline: "\<not> AZ09 10"
  by (simp add: AZ09_def AZ_def)

lemma five_or_more:
  assumes "5 \<le> length (xs :: 'a list)"
  obtains a b c d e w where "xs = a # b # c # d # e # w"
proof -
  from assms obtain a x1 where "xs = a # x1" "4 \<le> length x1" by (cases xs) auto
  moreover then obtain b x2 where "x1 = b # x2" "3 \<le> length x2" by (cases x1) auto
  moreover then obtain c x3 where "x2 = c # x3" "2 \<le> length x3" by (cases x2) auto
  moreover then obtain d x4 where "x3 = d # x4" "1 \<le> length x4" by (cases x3) auto
  moreover then obtain e w where "x4 = e # w" by (cases x4) auto
  ultimately show thesis using that by blast
qed

lemma iban_shape_body:
  "(5 \<le> length body \<and> list_all AZ (take 2 body)
      \<and> list_all (isdecimal U) (take 2 (drop 2 body)) \<and> list_all AZ09 (drop 4 body))
   \<longleftrightarrow> (\<exists>a b c d e w. body = a # b # c # d # e # w \<and> AZ a \<and> AZ b \<and> isdecimal U c
        \<and> isdecimal U d \<and> AZ09 e \<and> list_all AZ09 w)"
  (is "?L \<longleftrightarrow> ?R")
proof
  assume l: ?L
  then obtain a b c d e w where b: "body = a # b # c # d # e # w"
    using five_or_more [of body] by blast
  with l show ?R by (simp add: eval_nat_numeral)
next
  assume ?R
  then show ?L by (auto simp: eval_nat_numeral)
qed

lemma re_match_iban_rx: "re_match (iban_rx U) s = iban_shape U s"
proof
  assume "re_match (iban_rx U) s"
  then obtain t where "mt (iban_rx U) s t" unfolding re_match_iff by blast
  then obtain a b c d e w where
    s: "s = a # b # c # d # e # w @ t" and
    ok: "AZ a" "AZ b" "isdecimal U c" "isdecimal U d" "AZ09 e" "list_all AZ09 w" and
    t: "t = [] \<or> t = [10]"
    unfolding mt_iban_rx by blast
  let ?body = "a # b # c # d # e # w"
  have shape: "5 \<le> length ?body \<and> list_all AZ (take 2 ?body)
      \<and> list_all (isdecimal U) (take 2 (drop 2 ?body)) \<and> list_all AZ09 (drop 4 ?body)"
    using ok by (subst iban_shape_body) blast
  from t show "iban_shape U s"
  proof
    assume "t = []"
    with s have s': "s = ?body" by simp
    have "AZ09 (last (e # w))" using ok(5,6) by (simp add: list_all_iff)
    then have "last s \<noteq> 10" using s' not_AZ09_newline by auto
    with shape s' show ?thesis unfolding iban_shape_def Let_def by simp
  next
    assume "t = [10]"
    with s have s': "s = ?body @ [10]" by simp
    then have "last s = 10" "butlast s = ?body" "s \<noteq> []"
      by (simp_all add: butlast_append)
    with shape show ?thesis unfolding iban_shape_def Let_def by simp
  qed
next
  assume sh: "iban_shape U s"
  define body where "body = (if s \<noteq> [] \<and> last s = 10 then butlast s else s)"
  from sh have "5 \<le> length body \<and> list_all AZ (take 2 body)
      \<and> list_all (isdecimal U) (take 2 (drop 2 body)) \<and> list_all AZ09 (drop 4 body)"
    unfolding iban_shape_def Let_def body_def by simp
  then obtain a b c d e w where
    b: "body = a # b # c # d # e # w" and
    ok: "AZ a" "AZ b" "isdecimal U c" "isdecimal U d" "AZ09 e" "list_all AZ09 w"
    by (subst (asm) iban_shape_body) blast
  have "\<exists>t. s = body @ t \<and> (t = [] \<or> t = [10])"
  proof (cases "s \<noteq> [] \<and> last s = 10")
    case True
    then have "s = butlast s @ [10]" by (metis append_butlast_last_id)
    moreover from True have "body = butlast s" by (simp add: body_def)
    ultimately have "s = body @ [10]" by simp
    then show ?thesis by blast
  next
    case False
    then have "body = s" by (auto simp: body_def)
    then show ?thesis by simp
  qed
  then obtain t where "s = a # b # c # d # e # w @ t" "t = [] \<or> t = [10]"
    using b by auto
  with ok have "mt (iban_rx U) s t" by (subst mt_iban_rx) blast
  then show "re_match (iban_rx U) s" by (auto simp: re_match_iff)
qed

lemma country_lengths_exact:
  "(case country_lengths c of
      Some expected_length \<Rightarrow> \<not> (expected_length > 0 \<and> n \<noteq> expected_length)
    | None \<Rightarrow> True)
   = (case exact_length c of Some m \<Rightarrow> n = m | None \<Rightarrow> True)"
  by (simp add: country_lengths_def exact_length_def asc_def)

lemma validate_iban_shape:
  "validate_iban U i =
     (let s = str_upper U (filter (\<lambda>c. c \<noteq> 32) i) in
      15 \<le> length s \<and> length s \<le> 34 \<and> iban_shape U s
      \<and> (case exact_length (take 2 s) of Some n \<Rightarrow> length s = n | None \<Rightarrow> True))"
proof -
  define s where "s = str_upper U (filter (\<lambda>c. c \<noteq> 32) i)"
  have "validate_iban U i =
      (\<not> (length s < 15 \<or> length s > 34) \<and> re_match (iban_rx U) s
       \<and> (case country_lengths (take 2 s) of
             Some expected_length \<Rightarrow> \<not> (expected_length > 0 \<and> length s \<noteq> expected_length)
           | None \<Rightarrow> True))"
    unfolding validate_iban_def Let_def s_def by (simp split: option.splits)
  also have "\<dots> = (15 \<le> length s \<and> length s \<le> 34 \<and> iban_shape U s
      \<and> (case exact_length (take 2 s) of Some n \<Rightarrow> length s = n | None \<Rightarrow> True))"
    by (simp only: country_lengths_exact re_match_iban_rx) auto
  finally show ?thesis unfolding Let_def s_def .
qed

lemma filter_iban_errors: "filter is_iban_message (errors (validate_transaction U t)) = []"
  by (simp add: errors_validate amount_errors_bounds blocked_errors_iff length_errors_def
        split: option.splits)

lemma filter_iban_warnings:
  "filter is_iban_message (warnings (validate_transaction U t)) = iban_warnings U t"
  by (simp add: warnings_validate currency_warnings_def length_warnings_def
        iban_warnings_def account_warnings_def large_warnings_def split: option.splits)

text \<open>
  Claim C4, amended. \<open>_validate_iban\<close> accepts an IBAN exactly when, with the spaces
  removed and in upper case, it has 15 to 34 characters, has the shape of two letters,
  two digits and one or more letters or digits, and, for the country codes RU, DE, FR
  and GB, has exactly 33, 22, 27 and 22 characters. The code US has no exact length
  (\<open>exact_length\<close> does not list it): the guard \<open>expected_length > 0\<close> skips its
  table entry. A record whose IBAN is not empty and fails the check gets the IBAN message
  as a warning and not as an error.
\<close>

theorem validate_iban_exact:
  "validate_iban U i =
     (let s = str_upper U (filter (\<lambda>c. c \<noteq> 32) i) in
      15 \<le> length s \<and> length s \<le> 34 \<and> iban_shape U s
      \<and> (case exact_length (take 2 s) of Some n \<Rightarrow> length s = n | None \<Rightarrow> True))
   \<and> (iban t = Some i \<and> i \<noteq> [] \<and> \<not> validate_iban U i \<longrightarrow>
        filter is_iban_message (warnings (validate_transaction U t)) = [IbanSuspect i]
        \<and> filter is_iban_message (errors (validate_transaction U t)) = [])"
  using validate_iban_shape [of U i]
  by (simp add: filter_iban_errors filter_iban_warnings iban_warnings_def)

theorem validate_iban_accepts_us:
  "validate_iban ex_rt (asc ''US12345678901234567'')"
  by (simp add: validate_iban_shape iban_shape_def exact_length_def asc_def upper_cp_def
        AZ_def AZ09_def ascii_digit_def)

theorem validate_iban_exact_witness:
  "validate_iban ex_rt (asc ''DE89370400440532013000'')
   \<and> \<not> validate_iban ex_rt (asc ''DE123'')
   \<and> filter is_iban_message (warnings (validate_transaction ex_rt (iban_payment (asc ''DE123''))))
       = [IbanSuspect (asc ''DE123'')]
   \<and> filter is_iban_message (errors (validate_transaction ex_rt (iban_payment (asc ''DE123''))))
       = []"
proof -
  have a: "validate_iban ex_rt (asc ''DE89370400440532013000'')"
    using validate_iban_exact [of ex_rt "asc ''DE89370400440532013000''" "iban_payment (asc ''DE123'')"]
    by (simp add: iban_shape_def exact_length_def asc_def upper_cp_def
        AZ_def AZ09_def ascii_digit_def)
  have b: "\<not> validate_iban ex_rt (asc ''DE123'')"
    using validate_iban_exact [of ex_rt "asc ''DE123''" "iban_payment (asc ''DE123'')"]
    by (simp add: asc_def)
  have c: "iban (iban_payment (asc ''DE123'')) = Some (asc ''DE123'')" "asc ''DE123'' \<noteq> []"
    by (simp_all add: iban_payment_def asc_def)
  from validate_iban_exact [of ex_rt "asc ''DE123''" "iban_payment (asc ''DE123'')"] a b c
  show ?thesis by blast
qed

subsection \<open>Validity\<close>

text \<open>
  Claim C9. The verdict is valid exactly when its list of errors is empty; the warnings
  do not enter.
\<close>

theorem validate_is_valid:
  "is_valid (validate_transaction U t) = (errors (validate_transaction U t) = [])"
  by (simp add: validate_transaction_def Let_def)

section \<open>The parser and the processor\<close>

lemma ms_Seq_Nil: "ms a s = [] \<Longrightarrow> ms (Seq a b) s = []"
  by simp

lemma ms_number_no_digit:
  assumes "s = [] \<or> \<not> isdecimal U (hd s)"
  shows "ms (number_rx U dot) s = []"
proof -
  have "ms (Sym (isdecimal U)) s = []" using assms by (cases s) auto
  then show ?thesis by (simp add: number_rx_def Plus_def)
qed

lemma match_at_number_no_digit:
  assumes "before p = Eps" and "group1 p = number_rx U dot"
    and "s = [] \<or> \<not> isdecimal U (hd s)"
  shows "match_at p s = []"
  using assms ms_number_no_digit [of s U dot] by (simp add: match_at_def)

lemma search_number_no_digit:
  assumes "before p = Eps" and "group1 p = number_rx U dot"
    and "\<not> list_ex (isdecimal U) text"
  shows "search p text = None"
  using assms(3)
proof (induction "text")
  case Nil
  then show ?case using match_at_number_no_digit [OF assms(1,2), of "[]"] by simp
next
  case (Cons c cs)
  then have "match_at p (c # cs) = []"
    using match_at_number_no_digit [OF assms(1,2), of "c # cs"] by simp
  with Cons show ?case by simp
qed

lemma first_cued_None_iff:
  "first_cued ps text = None \<longleftrightarrow> (\<forall>(c, p) \<in> set ps. search p text = None)"
  by (induction ps) (auto split: option.splits)

lemma currency_patterns_number:
  "(c, p) \<in> set (currency_patterns U) \<Longrightarrow>
     before p = Eps \<and> group1 p = number_rx U (chr_i U 46)"
  by (auto simp: currency_patterns_def amount_pattern_def)

lemma detect_amount_no_digit:
  assumes "\<not> list_ex (isdecimal U) text"
  shows "detect_amount U text = Inl AmountNotFound"
proof -
  have "first_cued (currency_patterns U) text = None"
    unfolding first_cued_None_iff
    using currency_patterns_number search_number_no_digit [OF _ _ assms] by blast
  moreover have "search (bare_number_pattern U) text = None"
    using search_number_no_digit [OF _ _ assms, of "bare_number_pattern U" "chr 46"]
    by (simp add: bare_number_pattern_def)
  ultimately show ?thesis by (simp add: detect_amount_def)
qed

lemma process_transaction_cases:
  "process_transaction U P text =
     (case extraction U P text of
        Inl e \<Rightarrow> error_result e
      | Inr t \<Rightarrow>
          (case validate_parsed U t of
             Inl e \<Rightarrow> error_result e
           | Inr v \<Rightarrow> \<lparr> transaction_data = Some t, validation_result = Some v,
                 error = None,
                 processing_method = (if llm P \<noteq> None then LLM else Regex) \<rparr>))"
  by (simp add: process_transaction_def error_result_def and_then_def split: sum.splits)

lemma parse_no_number:
  assumes "\<not> list_ex (isdecimal U) text" and "\<not> has_braces text"
  shows "parse U text = Inl (ExtractionFailed text)"
proof -
  have "extract_with_regex U text = Inl AmountNotFound"
    using detect_amount_no_digit [OF assms(1)] by (simp add: extract_with_regex_def)
  with assms(2) show ?thesis by (simp add: parse_def parse_try_def)
qed

text \<open>
  Claim C6, amended. For a text without a digit character the extraction by patterns
  fails with \<open>AmountNotFound\<close>, and when the text has no JSON block either, \<open>parse\<close>
  fails. \<open>process_transaction\<close> then returns the result of a failed item (no transaction
  data, the error filled in) when no generator is configured, and with a generator when
  its call fails or its response does not parse, so that the text itself is parsed. A
  generator whose response parses decides the result instead. Every failure of the
  extraction step becomes the result of a failed item: \<open>process_transaction\<close> is total
  and its handler takes every exception.
\<close>

theorem no_number_fails:
  assumes "\<not> list_ex (isdecimal U) text" and "\<not> has_braces text"
  shows "extract_with_regex U text = Inl AmountNotFound
     \<and> parse U text = Inl (ExtractionFailed text)
     \<and> (llm P = None \<longrightarrow> process_transaction U P text = error_result (ExtractionFailed text))
     \<and> (\<forall>f. llm P = Some f \<and> (case f text of None \<Rightarrow> True | Some r \<Rightarrow> isl (parse U r)) \<longrightarrow>
            process_transaction U P text = error_result (ExtractionFailed text))
     \<and> (\<forall>e. extraction U P text = Inl e \<longrightarrow> process_transaction U P text = error_result e)"
proof -
  have x: "extract_with_regex U text = Inl AmountNotFound"
    using detect_amount_no_digit [OF assms(1)] by (simp add: extract_with_regex_def)
  have p: "parse U text = Inl (ExtractionFailed text)"
    using assms by (rule parse_no_number)
  have n: "llm P = None \<longrightarrow> process_transaction U P text = error_result (ExtractionFailed text)"
    using p by (simp add: process_transaction_cases extraction_def)
  have l: "\<forall>f. llm P = Some f \<and> (case f text of None \<Rightarrow> True | Some r \<Rightarrow> isl (parse U r)) \<longrightarrow>
            process_transaction U P text = error_result (ExtractionFailed text)"
    using p
    by (auto simp: process_transaction_cases extraction_def extract_with_llm_def isl_def
          split: option.splits sum.splits)
  have c: "\<forall>e. extraction U P text = Inl e \<longrightarrow> process_transaction U P text = error_result e"
    by (simp add: process_transaction_cases)
  from x p n l c show ?thesis by blast
qed

lemma batch_loop_map:
  "batch_loop U P texts results = results @ map (process_transaction U P) texts"
  by (induction texts arbitrary: results) simp_all

lemma batch_process_map: "batch_process U P texts = map (process_transaction U P) texts"
  by (simp add: batch_process_def batch_loop_map)

text \<open>
  Claim C8. \<open>batch_process\<close> returns one result for each text, in the order of the
  texts; the result at position \<open>k\<close> is what \<open>process_transaction\<close> returns for the text
  at position \<open>k\<close>, and what a batch of that text alone returns; when the extraction of
  that text fails, its result has no transaction data and carries the error.
\<close>

theorem batch_process_items:
  "length (batch_process U P texts) = length texts
   \<and> (\<forall>k < length texts.
         batch_process U P texts ! k = process_transaction U P (texts ! k)
         \<and> batch_process U P [texts ! k] = [batch_process U P texts ! k]
         \<and> (\<forall>e. extraction U P (texts ! k) = Inl e \<longrightarrow>
               transaction_data (batch_process U P texts ! k) = None
               \<and> error (batch_process U P texts ! k) = Some e))"
  by (simp add: batch_process_map process_transaction_cases error_result_def)

lemma ms_Star_Sym_Nil: "ms (Star (Sym p)) [] = [[]]"
  by (simp add: ms.simps(6))

lemma ms_Star_Sym_Cons:
  "ms (Star (Sym p)) (c # cs) = (if p c then ms (Star (Sym p)) cs @ [c # cs] else [c # cs])"
  by (simp add: ms.simps(6))

lemma ms_Star_Sym_hd: "\<exists>rest. ms (Star (Sym p)) s = dropWhile p s # rest"
proof (induction s)
  case Nil
  then show ?case by (simp add: ms_Star_Sym_Nil)
next
  case (Cons c cs)
  then obtain rest where "ms (Star (Sym p)) cs = dropWhile p cs # rest" by blast
  then show ?case by (simp add: ms_Star_Sym_Cons)
qed

lemma ms_Plus_Sym_hd:
  "p c \<Longrightarrow> \<exists>rest. ms (Plus (Sym p)) (c # cs) = dropWhile p cs # rest"
  using ms_Star_Sym_hd [of p cs] by (simp add: Plus_def)

lemma ms_Plus_Sym_Nil: "s = [] \<or> \<not> p (hd s) \<Longrightarrow> ms (Plus (Sym p)) s = []"
  by (cases s) (auto simp: Plus_def)

lemma ms_Seq_hd:
  assumes "ms a s = x # xs" and "ms b x = y # ys"
  shows "\<exists>rest. ms (Seq a b) s = y # rest"
  using assms by simp

lemma ms_fraction_hd:
  "\<exists>rest. ms (Opt (Seq (chr 46) (Plus (Sym (isdecimal U))))) x = after_fraction U x # rest"
proof (cases "\<exists>f r. x = 46 # f # r \<and> isdecimal U f")
  case True
  then obtain f r where x: "x = 46 # f # r" "isdecimal U f" by blast
  then obtain rest where "ms (Plus (Sym (isdecimal U))) (f # r) = dropWhile (isdecimal U) r # rest"
    using ms_Plus_Sym_hd [of "isdecimal U" f r] by blast
  with x show ?thesis by (simp add: Opt_def chr_def after_fraction_def)
next
  case False
  have "ms (Seq (chr 46) (Plus (Sym (isdecimal U)))) x = []"
  proof (cases x)
    case Nil
    then show ?thesis by (simp add: chr_def)
  next
    case (Cons d y)
    show ?thesis
    proof (cases "d = 46")
      case True
      with Cons False have "y = [] \<or> \<not> isdecimal U (hd y)" by (cases y) auto
      then have "ms (Plus (Sym (isdecimal U))) y = []" by (rule ms_Plus_Sym_Nil)
      with Cons True show ?thesis by (simp add: chr_def)
    next
      case False
      with Cons show ?thesis by (simp add: chr_def)
    qed
  qed
  then have "ms (Opt (Seq (chr 46) (Plus (Sym (isdecimal U))))) x = [x]"
    unfolding Opt_def by (simp only: ms.simps(5) ms.simps(2) append_Nil)
  moreover have "after_fraction U x = x"
    using False by (auto simp: after_fraction_def split: list.splits)
  ultimately show ?thesis by simp
qed

lemma ms_number_hd:
  assumes "isdecimal U c"
  shows "\<exists>rest. ms (number_rx U (chr 46)) (c # cs)
           = after_fraction U (dropWhile (isdecimal U) cs) # rest"
proof -
  obtain r1 where "ms (Plus (Sym (isdecimal U))) (c # cs) = dropWhile (isdecimal U) cs # r1"
    using ms_Plus_Sym_hd [of "isdecimal U" c cs] assms by blast
  moreover obtain r2 where
    "ms (Opt (Seq (chr 46) (Plus (Sym (isdecimal U))))) (dropWhile (isdecimal U) cs)
       = after_fraction U (dropWhile (isdecimal U) cs) # r2"
    using ms_fraction_hd by blast
  ultimately show ?thesis unfolding number_rx_def by (rule ms_Seq_hd)
qed

lemma match_at_bare:
  "match_at (bare_number_pattern U) s
     = map (\<lambda>s2. (take (length s - length s2) s, s2)) (ms (number_rx U (chr 46)) s)"
  by (simp add: match_at_def bare_number_pattern_def)

lemma token_at_numeric_prefix: "token_at U s = numeric_prefix U s"
proof -
  define whole where "whole = takeWhile (isdecimal U) s"
  define r where "r = dropWhile (isdecimal U) s"
  have s: "s = whole @ r" by (simp add: whole_def r_def)
  show ?thesis
  proof (cases "\<exists>f r'. r = 46 # f # r' \<and> isdecimal U f")
    case True
    then obtain f r' where r: "r = 46 # f # r'" and f: "isdecimal U f" by blast
    have af: "after_fraction U r = dropWhile (isdecimal U) r'"
      using r f by (simp add: after_fraction_def)
    have np: "numeric_prefix U s = whole @ 46 # f # takeWhile (isdecimal U) r'"
      using r f unfolding numeric_prefix_def Let_def whole_def [symmetric] r_def [symmetric]
      by simp
    have "s = (whole @ 46 # f # takeWhile (isdecimal U) r') @ dropWhile (isdecimal U) r'"
      using s r by simp
    then have "take (length s - length (dropWhile (isdecimal U) r')) s
        = whole @ 46 # f # takeWhile (isdecimal U) r'"
      by (metis append_eq_conv_conj length_append add_diff_cancel_right')
    then show ?thesis
      unfolding token_at_def r_def [symmetric] af np .
  next
    case False
    then have af: "after_fraction U r = r"
      by (auto simp: after_fraction_def split: list.splits)
    have np: "numeric_prefix U s = whole"
      using False unfolding numeric_prefix_def Let_def whole_def [symmetric] r_def [symmetric]
      by (auto split: list.splits)
    have "take (length s - length r) s = whole"
      using s by (metis append_eq_conv_conj length_append add_diff_cancel_right')
    then show ?thesis
      unfolding token_at_def r_def [symmetric] af np .
  qed
qed

lemma search_bare:
  "search (bare_number_pattern U) text = first_numeric_token U text"
proof (induction "text")
  case Nil
  have "match_at (bare_number_pattern U) [] = []"
    by (rule match_at_number_no_digit [where U = U and dot = "chr 46"])
       (simp_all add: bare_number_pattern_def)
  then show ?case by (simp add: first_numeric_token_def)
next
  case (Cons c cs)
  show ?case
  proof (cases "isdecimal U c")
    case True
    then obtain rest where
      "ms (number_rx U (chr 46)) (c # cs) = after_fraction U (dropWhile (isdecimal U) cs) # rest"
      using ms_number_hd [of U c cs] by blast
    with True show ?thesis
      by (simp add: match_at_bare first_numeric_token_def token_at_numeric_prefix [symmetric]
            token_at_def)
  next
    case False
    have "match_at (bare_number_pattern U) (c # cs) = []"
      by (rule match_at_number_no_digit [where U = U and dot = "chr 46"])
         (simp_all add: bare_number_pattern_def False)
    with False Cons show ?thesis by (simp add: first_numeric_token_def)
  qed
qed

lemma first_numeric_token_Some:
  "list_ex (isdecimal U) text \<Longrightarrow> \<exists>g. first_numeric_token U text = Some g"
  by (simp add: first_numeric_token_def Let_def list_ex_iff)

lemma mt_shift:
  "mt r s t \<Longrightarrow> eos_free r \<Longrightarrow> \<exists>w. s = w @ t \<and> (\<forall>u. mt r (w @ u) u)"
proof (induction rule: mt.induct)
  case (mt_Sym p c cs)
  have "c # cs = [c] @ cs \<and> (\<forall>u. mt (Sym p) ([c] @ u) u)"
    using mt_Sym by (auto intro: mt.intros)
  then show ?case by blast
next
  case (mt_Eps s)
  have "s = [] @ s \<and> (\<forall>u. mt Eps ([] @ u) u)" by (auto intro: mt.intros)
  then show ?case by blast
next
  case (mt_Eos s)
  then show ?case by simp
next
  case (mt_Seq a s t b u)
  then obtain w1 w2 where "s = w1 @ t" "\<forall>v. mt a (w1 @ v) v" "t = w2 @ u" "\<forall>v. mt b (w2 @ v) v"
    by auto
  then have "s = (w1 @ w2) @ u \<and> (\<forall>v. mt (Seq a b) ((w1 @ w2) @ v) v)"
    by (auto intro: mt.intros)
  then show ?case by blast
next
  case (mt_AltL a s t b)
  then obtain w where "s = w @ t" "\<forall>v. mt a (w @ v) v" by auto
  then have "s = w @ t \<and> (\<forall>v. mt (Alt a b) (w @ v) v)" by (auto intro: mt.intros)
  then show ?case by blast
next
  case (mt_AltR b s t a)
  then obtain w where "s = w @ t" "\<forall>v. mt b (w @ v) v" by auto
  then have "s = w @ t \<and> (\<forall>v. mt (Alt a b) (w @ v) v)" by (auto intro: mt.intros)
  then show ?case by blast
next
  case (mt_Star0 a s)
  have "s = [] @ s \<and> (\<forall>u. mt (Star a) ([] @ u) u)" by (auto intro: mt.intros)
  then show ?case by blast
next
  case (mt_StarS a s t u)
  then obtain w1 w2 where "s = w1 @ t" "\<forall>v. mt a (w1 @ v) v" "t = w2 @ u"
      "\<forall>v. mt (Star a) (w2 @ v) v"
    by auto
  then have "s = (w1 @ w2) @ u \<and> (\<forall>v. mt (Star a) ((w1 @ w2) @ v) v)"
    by (auto intro: mt.intros)
  then show ?case by blast
next
  case (mt_Lazy0 a s)
  have "s = [] @ s \<and> (\<forall>u. mt (Lazy a) ([] @ u) u)" by (auto intro: mt.intros)
  then show ?case by blast
next
  case (mt_LazyS a s t u)
  then obtain w1 w2 where "s = w1 @ t" "\<forall>v. mt a (w1 @ v) v" "t = w2 @ u"
      "\<forall>v. mt (Lazy a) (w2 @ v) v"
    by auto
  then have "s = (w1 @ w2) @ u \<and> (\<forall>v. mt (Lazy a) ((w1 @ w2) @ v) v)"
    by (auto intro: mt.intros)
  then show ?case by blast
qed

lemma ms_full_match:
  assumes "t \<in> set (ms r s)" and "eos_free r"
  shows "full_match r (take (length s - length t) s)"
proof -
  from assms(1) have "mt r s t" by (simp add: ms_iff_mt)
  with assms(2) obtain w where w: "s = w @ t" "\<forall>u. mt r (w @ u) u" using mt_shift by blast
  then have "mt r w []" by (metis append_Nil2)
  moreover from w(1) have "take (length s - length t) s = w" by simp
  ultimately show ?thesis by (simp add: full_match_def ms_iff_mt)
qed

lemma match_at_full_match:
  assumes "(g, s3) \<in> set (match_at p s)" and "eos_free (group1 p)"
  shows "full_match (group1 p) g"
proof -
  from assms(1) obtain s1 s2 where "s2 \<in> set (ms (group1 p) s1)"
      "g = take (length s1 - length s2) s1"
    by (auto simp: match_at_def)
  with assms(2) show ?thesis using ms_full_match by blast
qed

lemma search_Some_match_at:
  "search p text = Some g \<Longrightarrow> \<exists>s s3. suffix s text \<and> (g, s3) \<in> set (match_at p s)"
proof (induction "text")
  case Nil
  then obtain s3 rest where "match_at p [] = (g, s3) # rest"
    by (cases "match_at p []") (auto split: prod.splits)
  then have "suffix [] [] \<and> (g, s3) \<in> set (match_at p [])" by simp
  then show ?case by blast
next
  case (Cons c cs)
  show ?case
  proof (cases "match_at p (c # cs)")
    case Nil
    with Cons obtain s s3 where "suffix s cs" "(g, s3) \<in> set (match_at p s)" by auto
    then have "suffix s (c # cs) \<and> (g, s3) \<in> set (match_at p s)"
      by (simp add: suffix_ConsI)
    then show ?thesis by blast
  next
    case (Cons m rest)
    with Cons.prems have "fst m = g" by (cases m) simp
    with Cons have "suffix (c # cs) (c # cs) \<and> (g, snd m) \<in> set (match_at p (c # cs))"
      by (cases m) simp
    then show ?thesis by blast
  qed
qed

lemma search_full_match:
  "search p text = Some g \<Longrightarrow> eos_free (group1 p) \<Longrightarrow> full_match (group1 p) g"
  using search_Some_match_at match_at_full_match by blast

lemma eos_free_number: "eos_free dot \<Longrightarrow> eos_free (number_rx U dot)"
  by (simp add: number_rx_def Plus_def Opt_def)

lemma first_cued_priority:
  "search (amount_pattern U rub_cues) text = Some g \<Longrightarrow>
     first_cued (currency_patterns U) text = Some (g, RUB)"
  by (simp add: currency_patterns_def)

lemma first_cued_Some:
  "first_cued ps text = Some (g, c) \<Longrightarrow> \<exists>p. (c, p) \<in> set ps \<and> search p text = Some g"
  by (induction ps) (auto split: option.splits)

lemma detect_amount_digit:
  assumes "list_ex (isdecimal U) text" and "float_reads_numbers U"
  shows "\<exists>a c. detect_amount U text = Inr (a, c)"
proof (cases "first_cued (currency_patterns U) text")
  case None
  from assms(1) obtain g where g: "first_numeric_token U text = Some g"
    using first_numeric_token_Some by blast
  then have s: "search (bare_number_pattern U) text = Some g" by (simp add: search_bare)
  then have "full_match (number_rx U (chr 46)) g"
    using search_full_match [of "bare_number_pattern U" "text" g]
    by (simp add: bare_number_pattern_def eos_free_number chr_def)
  with assms(2) obtain a where "py_float U g = Some a"
    unfolding float_reads_numbers_def by blast
  with None s show ?thesis by (simp add: detect_amount_def to_amount_def)
next
  case (Some gc)
  obtain g c where gc: "gc = (g, c)" by (cases gc)
  with Some obtain p where p: "(c, p) \<in> set (currency_patterns U)" "search p text = Some g"
    using first_cued_Some by blast
  then have "group1 p = number_rx U (chr_i U 46)" using currency_patterns_number by blast
  with p(2) have "full_match (number_rx U (chr_i U 46)) g"
    using search_full_match [of p "text" g] by (simp add: eos_free_number chr_i_def)
  with assms(2) obtain a where "py_float U g = Some a"
    unfolding float_reads_numbers_def by blast
  with Some gc show ?thesis by (simp add: detect_amount_def to_amount_def)
qed

lemma extract_keys:
  assumes "detect_amount U text = Inr (a, c)"
  shows "\<exists>d. extract_with_regex U text = Inr d
     \<and> d (asc ''amount'') = Some (JNum a)
     \<and> d (asc ''currency'') = Some (JStr c)
     \<and> d (asc ''recipient'') = Some (JStr (detect_recipient U text))
     \<and> d (asc ''account_number'') = Some (opt_str (search (account_pattern U) text))
     \<and> d (asc ''iban'') = Some (opt_str (search (iban_pattern U) text))
     \<and> d (asc ''description'')
         = Some (opt_str (map_option (strip_where (isspace U))
                            (search (description_pattern U) text)))"
  using assms by (simp add: extract_with_regex_def asc_def)

lemma build_regex:
  assumes "d (asc ''amount'') = Some (JNum a)"
     and "d (asc ''currency'') = Some (JStr c)"
     and "d (asc ''recipient'') = Some (JStr r)"
     and "d (asc ''account_number'') = Some (opt_str acc)"
     and "d (asc ''iban'') = Some (opt_str ib)"
     and "d (asc ''description'') = Some (opt_str de)"
  shows "build U d = Inr \<lparr> amount = a, currency = str_upper U c, recipient = JStr r,
       account_number = opt_str acc, iban = opt_str ib, description = opt_str de \<rparr>"
  using assms by (simp add: build_def and_then_def to_float_def to_upper_def dict_get_def)

lemma parse_try_regex:
  assumes "\<not> has_braces text" and "detect_amount U text = Inr (a, c)"
  shows "parse_try U text = Inr (regex_record U text a c)"
proof -
  from extract_keys [OF assms(2)] obtain d where d: "extract_with_regex U text = Inr d"
     "d (asc ''amount'') = Some (JNum a)"
     "d (asc ''currency'') = Some (JStr c)"
     "d (asc ''recipient'') = Some (JStr (detect_recipient U text))"
     "d (asc ''account_number'') = Some (opt_str (search (account_pattern U) text))"
     "d (asc ''iban'') = Some (opt_str (search (iban_pattern U) text))"
     "d (asc ''description'')
         = Some (opt_str (map_option (strip_where (isspace U))
                            (search (description_pattern U) text)))"
    by blast
  from build_regex [OF d(2-7)] d(1) assms(1) show ?thesis
    by (simp add: parse_try_def regex_record_def)
qed

lemma parse_regex:
  assumes "\<not> has_braces text" and "detect_amount U text = Inr (a, c)"
  shows "parse U text = Inr (regex_record U text a c)"
  using parse_try_regex [OF assms] by (simp add: parse_def)

lemma detect_amount_errors:
  "detect_amount U text = Inl e \<Longrightarrow> e = AmountNotFound \<or> e = NotAFloat"
  by (auto simp: detect_amount_def to_amount_def split: option.splits prod.splits)

lemma parse_try_missing_fields:
  assumes "parse_try U text = Inl MissingFields"
  shows "has_braces text"
proof (rule ccontr)
  assume nb: "\<not> has_braces text"
  show False
  proof (cases "detect_amount U text")
    case (Inl e)
    then have "extract_with_regex U text = Inl e" by (simp add: extract_with_regex_def)
    with nb have "parse_try U text = Inl e" by (simp add: parse_try_def)
    with assms detect_amount_errors [OF Inl] show False by auto
  next
    case (Inr ac)
    obtain a c where "ac = (a, c)" by (cases ac)
    with Inr parse_try_regex [OF nb, of U a c] assms show False by simp
  qed
qed

lemma match_at_before_Nil: "ms (before p) s = [] \<Longrightarrow> match_at p s = []"
  by (simp add: match_at_def)

lemma search_no_marker:
  assumes "\<not> marker_found U text"
  shows "search (recipient_pattern U) text = None"
proof -
  have "\<forall>s. suffix s text \<longrightarrow> match_at (recipient_pattern U) s = []"
  proof (intro allI impI)
    fix s assume "suffix s text"
    with assms have "ms (recipient_markers U) s = []"
      by (auto simp: marker_found_def list_ex_iff re_match_def)
    then have "ms (before (recipient_pattern U)) s = []"
      by (simp add: recipient_pattern_def)
    then show "match_at (recipient_pattern U) s = []" by (rule match_at_before_Nil)
  qed
  then show ?thesis
  proof (induction "text")
    case Nil
    then show ?case by simp
  next
    case (Cons c cs)
    then have "match_at (recipient_pattern U) (c # cs) = []" by simp
    moreover from Cons have "search (recipient_pattern U) cs = None"
      by (simp add: suffix_ConsI)
    ultimately show ?case by simp
  qed
qed

lemma detect_recipient_sentinel:
  assumes "search (recipient_pattern U) text = None"
    and "\<forall>c \<in> set unknown_recipient. isspace U c = (c = 32)"
  shows "detect_recipient U text = unknown_recipient"
  using assms
  by (simp add: detect_recipient_def unknown_recipient_def strip_where_def asc_def)

lemma detect_amount_default:
  assumes "\<forall>(c, p) \<in> set (currency_patterns U). search p text = None"
    and "list_ex (isdecimal U) text"
  shows "\<exists>g. first_numeric_token U text = Some g \<and> detect_amount U text = to_amount U g RUB"
proof -
  from assms(2) obtain g where g: "first_numeric_token U text = Some g"
    using first_numeric_token_Some by blast
  moreover have "first_cued (currency_patterns U) text = None"
    using assms(1) by (simp add: first_cued_None_iff)
  ultimately have "detect_amount U text = to_amount U g RUB"
    by (simp add: detect_amount_def search_bare)
  with g show ?thesis by blast
qed

text \<open>
  Claim C7. When none of the currency patterns matches and the text has a digit, the
  amount is read from the first numeric token of the text (the first run of digits,
  with its fraction) and the currency is RUB.
\<close>

theorem default_currency_first_number:
  assumes "\<forall>(c, p) \<in> set (currency_patterns U). search p text = None"
    and "list_ex (isdecimal U) text"
  shows "\<exists>g. first_numeric_token U text = Some g
     \<and> detect_amount U text = to_amount U g RUB
     \<and> (\<forall>a. py_float U g = Some a \<longrightarrow>
           (\<exists>d. extract_with_regex U text = Inr d
              \<and> d (asc ''amount'') = Some (JNum a)
              \<and> d (asc ''currency'') = Some (JStr RUB)))"
proof -
  from detect_amount_default [OF assms] obtain g where
    g: "first_numeric_token U text = Some g" "detect_amount U text = to_amount U g RUB"
    by blast
  have "\<forall>a. py_float U g = Some a \<longrightarrow>
           (\<exists>d. extract_with_regex U text = Inr d
              \<and> d (asc ''amount'') = Some (JNum a)
              \<and> d (asc ''currency'') = Some (JStr RUB))"
  proof (intro allI impI)
    fix a assume "py_float U g = Some a"
    with g(2) have "detect_amount U text = Inr (a, RUB)" by (simp add: to_amount_def)
    from extract_keys [OF this] show "\<exists>d. extract_with_regex U text = Inr d
              \<and> d (asc ''amount'') = Some (JNum a)
              \<and> d (asc ''currency'') = Some (JStr RUB)" by blast
  qed
  with g show ?thesis by blast
qed

text \<open>
  Claim C10. For a text that does not hold both braces and has a digit, \<open>parse\<close>
  succeeds, given that \<open>float()\<close> reads what the number pattern matches: the field map
  has the amount, the currency and the recipient; the recipient is the sentinel when no
  marker occurs in the text, and the currency is RUB when no currency pattern matches
  (the sentinel has one space, and \<open>upper()\<close> leaves RUB as it is). The failure for
  missing mandatory fields arises only for a text with both braces.
\<close>

theorem parse_regex_succeeds:
  "(\<not> has_braces text \<and> list_ex (isdecimal U) text \<and> float_reads_numbers U \<longrightarrow>
      (\<exists>d t. extract_with_regex U text = Inr d
         \<and> d (asc ''amount'') \<noteq> None \<and> d (asc ''currency'') \<noteq> None
         \<and> d (asc ''recipient'') \<noteq> None
         \<and> parse U text = Inr t
         \<and> (\<not> marker_found U text \<and> (\<forall>c \<in> set unknown_recipient. isspace U c = (c = 32))
              \<longrightarrow> recipient t = JStr unknown_recipient)
         \<and> ((\<forall>(c, p) \<in> set (currency_patterns U). search p text = None)
              \<and> str_upper U RUB = RUB \<longrightarrow> currency t = RUB)))
   \<and> (parse_try U text = Inl MissingFields \<longrightarrow> has_braces text)"
proof (intro conjI impI)
  assume h: "\<not> has_braces text \<and> list_ex (isdecimal U) text \<and> float_reads_numbers U"
  then obtain a c where ac: "detect_amount U text = Inr (a, c)"
    using detect_amount_digit by blast
  from extract_keys [OF ac] obtain d where d: "extract_with_regex U text = Inr d"
     "d (asc ''amount'') = Some (JNum a)" "d (asc ''currency'') = Some (JStr c)"
     "d (asc ''recipient'') = Some (JStr (detect_recipient U text))"
    by blast
  from h ac have p: "parse U text = Inr (regex_record U text a c)" by (simp add: parse_regex)
  have r: "\<not> marker_found U text \<and> (\<forall>c \<in> set unknown_recipient. isspace U c = (c = 32))
              \<longrightarrow> recipient (regex_record U text a c) = JStr unknown_recipient"
    using search_no_marker detect_recipient_sentinel by (simp add: regex_record_def)
  have cu: "(\<forall>(c, p) \<in> set (currency_patterns U). search p text = None)
              \<and> str_upper U RUB = RUB \<longrightarrow> currency (regex_record U text a c) = RUB"
  proof
    assume n: "(\<forall>(c, p) \<in> set (currency_patterns U). search p text = None)
              \<and> str_upper U RUB = RUB"
    with h obtain g where "detect_amount U text = to_amount U g RUB"
      using detect_amount_default [of U "text"] by blast
    with ac have "c = RUB" by (auto simp: to_amount_def split: option.splits)
    with n show "currency (regex_record U text a c) = RUB" by (simp add: regex_record_def)
  qed
  from d p r cu show "\<exists>d t. extract_with_regex U text = Inr d
         \<and> d (asc ''amount'') \<noteq> None \<and> d (asc ''currency'') \<noteq> None
         \<and> d (asc ''recipient'') \<noteq> None
         \<and> parse U text = Inr t
         \<and> (\<not> marker_found U text \<and> (\<forall>c \<in> set unknown_recipient. isspace U c = (c = 32))
              \<longrightarrow> recipient t = JStr unknown_recipient)
         \<and> ((\<forall>(c, p) \<in> set (currency_patterns U). search p text = None)
              \<and> str_upper U RUB = RUB \<longrightarrow> currency t = RUB)"
    by (intro exI [of _ d] exI [of _ "regex_record U text a c"]) simp
next
  assume "parse_try U text = Inl MissingFields"
  then show "has_braces text" by (rule parse_try_missing_fields)
qed

lemma mt_number_rx:
  "mt (number_rx U (Sym q)) g [] \<longleftrightarrow>
     (\<exists>c w. isdecimal U c \<and> list_all (isdecimal U) w
        \<and> (g = c # w
            \<or> (\<exists>d f v. g = c # w @ d # f # v \<and> q d \<and> isdecimal U f
                  \<and> list_all (isdecimal U) v)))"
  unfolding number_rx_def Plus_def Opt_def
  by (simp add: mt_Sym_iff mt_Eps_iff mt_Seq_iff mt_Alt_iff mt_Star_Sym_iff) blast

lemma caseless_dot: "46 \<in> set (caseless ex_rt t) \<longleftrightarrow> t = 46"
  by (auto simp: lower_cp_def upper_cp_def split: if_splits)

lemma read_float_number:
  assumes "ascii_digit c" and "list_all ascii_digit w"
    and "r = [] \<or> (\<exists>f v. r = 46 # f # v \<and> ascii_digit f \<and> list_all ascii_digit v)"
  shows "read_float (c # w @ r) \<noteq> None"
proof -
  have nd: "\<not> ascii_digit 46" by (simp add: ascii_digit_def)
  have tw: "takeWhile ascii_digit (c # w @ r) = c # w"
    using assms nd by (auto simp: list_all_iff)
  have dw: "dropWhile ascii_digit (c # w @ r) = r"
    using assms nd by (auto simp: list_all_iff)
  from assms(3) show ?thesis
    unfolding read_float_def Let_def tw dw by auto
qed

lemma float_reads_numbers_ex: "float_reads_numbers ex_rt"
proof -
  have "py_float ex_rt g \<noteq> None"
    if "full_match (number_rx ex_rt (Sym q)) g" and q: "\<And>t. q t \<Longrightarrow> t = 46" for g q
  proof -
    from that(1) have "mt (number_rx ex_rt (Sym q)) g []"
      by (simp add: full_match_def ms_iff_mt)
    then obtain c w where cw: "ascii_digit c" "list_all ascii_digit w"
      and g: "g = c # w \<or> (\<exists>d f v. g = c # w @ d # f # v \<and> q d \<and> ascii_digit f
                  \<and> list_all ascii_digit v)"
      unfolding mt_number_rx by auto
    from g obtain r where "g = c # w @ r"
      "r = [] \<or> (\<exists>f v. r = 46 # f # v \<and> ascii_digit f \<and> list_all ascii_digit v)"
      using q by auto
    with cw show ?thesis using read_float_number by simp
  qed
  from this [of "\<lambda>t. 46 \<in> set (caseless ex_rt t)"] this [of "\<lambda>t. t = 46"]
  show ?thesis
    unfolding float_reads_numbers_def chr_i_def chr_def using caseless_dot by blast
qed

subsection \<open>The examples\<close>

lemmas eval_rx = amount_pattern_def number_rx_def Plus_def Opt_def match_at_def
    rub_cues_def usd_cues_def eur_cues_def lit_i_def chr_i_def chr_def asc_def
    ms.simps(6) ms.simps(7) lower_cp_def upper_cp_def ascii_digit_def ascii_space_def

lemma bare_text_no_cue:
  "\<forall>(c, p) \<in> set (currency_patterns ex_rt). search p bare_text = None"
  by (simp add: currency_patterns_def bare_text_def eval_rx)

lemma bare_text_digit: "list_ex (isdecimal ex_rt) bare_text"
  by (simp add: bare_text_def asc_def ascii_digit_def)

lemma bare_text_token: "first_numeric_token ex_rt bare_text = Some (asc ''12.75'')"
  by (simp add: first_numeric_token_def numeric_prefix_def bare_text_def asc_def ascii_digit_def)

lemma read_float_token: "py_float ex_rt (asc ''12.75'') = Some (Fin (51 / 4))"
  by (simp add: read_float_def asc_def ascii_digit_def dec_val_def)

theorem default_currency_first_number_witness:
  "search (amount_pattern ex_rt rub_cues) bare_text = None
   \<and> search (amount_pattern ex_rt usd_cues) bare_text = None
   \<and> search (amount_pattern ex_rt eur_cues) bare_text = None
   \<and> list_ex (isdecimal ex_rt) bare_text
   \<and> first_numeric_token ex_rt bare_text = Some (asc ''12.75'')
   \<and> detect_amount ex_rt bare_text = Inr (Fin (51 / 4), RUB)"
proof -
  from default_currency_first_number [OF bare_text_no_cue bare_text_digit]
  obtain g where "first_numeric_token ex_rt bare_text = Some g"
    "detect_amount ex_rt bare_text = to_amount ex_rt g RUB" by blast
  with bare_text_token read_float_token
  have "detect_amount ex_rt bare_text = Inr (Fin (51 / 4), RUB)"
    by (simp add: to_amount_def)
  moreover from bare_text_no_cue
  have "search (amount_pattern ex_rt rub_cues) bare_text = None
   \<and> search (amount_pattern ex_rt usd_cues) bare_text = None
   \<and> search (amount_pattern ex_rt eur_cues) bare_text = None"
    by (simp add: currency_patterns_def)
  ultimately show ?thesis using bare_text_digit bare_text_token by blast
qed

lemma bare_text_no_marker: "\<not> marker_found ex_rt bare_text"
  by (simp add: marker_found_def bare_text_def re_match_def recipient_markers_def
        in_ranges_i_def in_ranges_def lit_i_def chr_i_def asc_def lower_cp_def upper_cp_def)

lemma sentinel_spaces: "\<forall>c \<in> set unknown_recipient. isspace ex_rt c = (c = 32)"
  by (simp add: unknown_recipient_def ascii_space_def)

lemma empty_object_missing_fields: "parse_try ex_rt (asc ''{}'') = Inl MissingFields"
  by (simp add: parse_try_def has_braces_def json_block_def build_def asc_def)

theorem parse_regex_succeeds_witness:
  "(\<exists>t. parse ex_rt bare_text = Inr t \<and> recipient t = JStr unknown_recipient
         \<and> currency t = RUB)
   \<and> parse_try ex_rt (asc ''{}'') = Inl MissingFields \<and> has_braces (asc ''{}'')"
proof -
  have nb: "\<not> has_braces bare_text" by (simp add: has_braces_def bare_text_def asc_def)
  have up: "str_upper ex_rt RUB = RUB" by (simp add: RUB_def asc_def upper_cp_def)
  from parse_regex_succeeds [of bare_text ex_rt] nb bare_text_digit float_reads_numbers_ex
    bare_text_no_marker sentinel_spaces bare_text_no_cue up
  have a: "\<exists>t. parse ex_rt bare_text = Inr t \<and> recipient t = JStr unknown_recipient
         \<and> currency t = RUB"
    by blast
  from parse_regex_succeeds [of "asc ''{}''" ex_rt] empty_object_missing_fields
  have "has_braces (asc ''{}'')" by blast
  with a empty_object_missing_fields show ?thesis by blast
qed

lemma no_amount_text_plain:
  "\<not> list_ex (isdecimal ex_rt) no_amount_text" "\<not> has_braces no_amount_text"
  by (simp_all add: no_amount_text_def asc_def ascii_digit_def has_braces_def)

lemma checked_str_opt_str: "checked_str e (opt_str x) = Inr (if x = Some [] then None else x)"
  by (cases x) (simp_all add: checked_str_def opt_str_def)

lemma validate_parsed_regex: "\<exists>v. validate_parsed U (regex_record U text a c) = Inr v"
  by (simp add: validate_parsed_def regex_record_def and_then_def checked_str_opt_str Let_def)

lemma process_regex_record:
  assumes "extraction U P text = Inr (regex_record U response a c)"
  shows "transaction_data (process_transaction U P text) = Some (regex_record U response a c)
     \<and> error (process_transaction U P text) = None"
proof -
  obtain v where "validate_parsed U (regex_record U response a c) = Inr v"
    using validate_parsed_regex by blast
  with assms show ?thesis by (simp add: process_transaction_cases)
qed

lemma euro_response_amount: "detect_amount ex_rt (asc ''7 EUR to Zed'') = Inr (Fin 7, EUR)"
  by (simp add: detect_amount_def currency_patterns_def to_amount_def read_float_def
        dec_val_def EUR_def eval_rx)

theorem answering_generator_gives_data:
  "\<not> list_ex (isdecimal ex_rt) no_amount_text
   \<and> \<not> has_braces no_amount_text
   \<and> transaction_data (process_transaction ex_rt answering_llm no_amount_text)
       = Some (regex_record ex_rt (asc ''7 EUR to Zed'') (Fin 7) EUR)
   \<and> error (process_transaction ex_rt answering_llm no_amount_text) = None"
proof -
  have nb: "\<not> has_braces (asc ''7 EUR to Zed'')" by (simp add: has_braces_def asc_def)
  have "parse ex_rt (asc ''7 EUR to Zed'')
      = Inr (regex_record ex_rt (asc ''7 EUR to Zed'') (Fin 7) EUR)"
    using nb euro_response_amount by (rule parse_regex)
  then have "extraction ex_rt answering_llm no_amount_text
      = Inr (regex_record ex_rt (asc ''7 EUR to Zed'') (Fin 7) EUR)"
    by (simp add: extraction_def extract_with_llm_def answering_llm_def)
  from process_regex_record [OF this] no_amount_text_plain show ?thesis by blast
qed

lemma hello_plain:
  "\<not> list_ex (isdecimal ex_rt) (asc ''hello'')" "\<not> has_braces (asc ''hello'')"
  by (simp_all add: asc_def ascii_digit_def has_braces_def)

theorem no_number_fails_witness:
  "extract_with_regex ex_rt no_amount_text = Inl AmountNotFound
   \<and> parse ex_rt no_amount_text = Inl (ExtractionFailed no_amount_text)
   \<and> process_transaction ex_rt regex_only no_amount_text
       = error_result (ExtractionFailed no_amount_text)
   \<and> process_transaction ex_rt failing_llm no_amount_text
       = error_result (ExtractionFailed no_amount_text)
   \<and> process_transaction ex_rt babbling_llm no_amount_text
       = error_result (ExtractionFailed no_amount_text)"
proof -
  have "isl (parse ex_rt (asc ''hello''))"
    using parse_no_number [OF hello_plain] by simp
  then show ?thesis
    using no_number_fails [OF no_amount_text_plain, of regex_only]
        no_number_fails [OF no_amount_text_plain, of failing_llm]
        no_number_fails [OF no_amount_text_plain, of babbling_llm]
    by (simp add: regex_only_def failing_llm_def babbling_llm_def)
qed

theorem batch_process_items_witness:
  "length (batch_process ex_rt regex_only batch_texts) = 3
   \<and> batch_process ex_rt regex_only batch_texts ! 0
       = process_transaction ex_rt regex_only bare_text
   \<and> transaction_data (batch_process ex_rt regex_only batch_texts ! 1) = None
   \<and> error (batch_process ex_rt regex_only batch_texts ! 1)
       = Some (ExtractionFailed no_amount_text)
   \<and> batch_process ex_rt regex_only batch_texts ! 2
       = process_transaction ex_rt regex_only (asc ''send 100 USD to Ann'')"
proof -
  have l: "length batch_texts = 3" by (simp add: batch_texts_def)
  have t0: "batch_texts ! 0 = bare_text" by (simp add: batch_texts_def)
  have t1: "batch_texts ! 1 = no_amount_text" by (simp add: batch_texts_def)
  have t2: "batch_texts ! 2 = asc ''send 100 USD to Ann''" by (simp add: batch_texts_def)
  have x: "extraction ex_rt regex_only (batch_texts ! 1) = Inl (ExtractionFailed no_amount_text)"
    unfolding t1 using parse_no_number [OF no_amount_text_plain]
    by (simp add: extraction_def regex_only_def)
  note b = batch_process_items [of ex_rt regex_only batch_texts]
  from b have "length (batch_process ex_rt regex_only batch_texts) = length batch_texts"
    by (rule conjunct1)
  then have a: "length (batch_process ex_rt regex_only batch_texts) = 3" unfolding l .
  from b have "\<forall>k < length batch_texts.
         batch_process ex_rt regex_only batch_texts ! k
           = process_transaction ex_rt regex_only (batch_texts ! k)
         \<and> batch_process ex_rt regex_only [batch_texts ! k]
           = [batch_process ex_rt regex_only batch_texts ! k]
         \<and> (\<forall>e. extraction ex_rt regex_only (batch_texts ! k) = Inl e \<longrightarrow>
               transaction_data (batch_process ex_rt regex_only batch_texts ! k) = None
               \<and> error (batch_process ex_rt regex_only batch_texts ! k) = Some e)"
    by (rule conjunct2)
  then have items: "\<forall>k < 3.
         batch_process ex_rt regex_only batch_texts ! k
           = process_transaction ex_rt regex_only (batch_texts ! k)
         \<and> batch_process ex_rt regex_only [batch_texts ! k]
           = [batch_process ex_rt regex_only batch_texts ! k]
         \<and> (\<forall>e. extraction ex_rt regex_only (batch_texts ! k) = Inl e \<longrightarrow>
               transaction_data (batch_process ex_rt regex_only batch_texts ! k) = None
               \<and> error (batch_process ex_rt regex_only batch_texts ! k) = Some e)"
    unfolding l .
  have n: "(0::nat) < 3" "(1::nat) < 3" "(2::nat) < 3" by simp_all
  from items n(1) have k0: "batch_process ex_rt regex_only batch_texts ! 0
           = process_transaction ex_rt regex_only (batch_texts ! 0)" by blast
  from items n(3) have k2: "batch_process ex_rt regex_only batch_texts ! 2
           = process_transaction ex_rt regex_only (batch_texts ! 2)" by blast
  from items n(2) x have k1: "transaction_data (batch_process ex_rt regex_only batch_texts ! 1) = None
      \<and> error (batch_process ex_rt regex_only batch_texts ! 1)
          = Some (ExtractionFailed no_amount_text)"
    by blast
  from k0 have k0': "batch_process ex_rt regex_only batch_texts ! 0
           = process_transaction ex_rt regex_only bare_text" unfolding t0 .
  from k2 have k2': "batch_process ex_rt regex_only batch_texts ! 2
           = process_transaction ex_rt regex_only (asc ''send 100 USD to Ann'')" unfolding t2 .
  from a k0' k1 k2' show ?thesis by blast
qed

lemma usd_text_no_rub: "search (amount_pattern ex_rt rub_cues) usd_text = None"
  by (simp add: usd_text_def eval_rx)

lemma usd_text_no_usd: "search (amount_pattern ex_rt usd_cues) usd_text = None"
  by (simp add: usd_text_def eval_rx)

lemma usd_text_no_eur: "search (amount_pattern ex_rt eur_cues) usd_text = None"
  by (simp add: usd_text_def eval_rx)

text \<open>
  Claim C3. The currency patterns are tried in the order RUB, USD, EUR and each accepts a
  number followed by its cue. The claim also lets the cue precede the number, and the
  parsing test case of the repository expects USD 2500 for a text with \<open>$2500\<close>. On
  that text the USD pattern finds nothing, no currency pattern matches, and the
  extraction falls back to the first bare number with the default currency: the amount
  is 2500 and the currency is RUB.
\<close>

theorem dollar_sign_before_number:
  "search (amount_pattern ex_rt usd_cues) usd_text = None
   \<and> detect_amount ex_rt usd_text = Inr (Fin 2500, RUB)
   \<and> parse ex_rt usd_text = Inr (regex_record ex_rt usd_text (Fin 2500) RUB)
   \<and> currency (regex_record ex_rt usd_text (Fin 2500) RUB) = RUB"
proof -
  have c: "\<forall>(c, p) \<in> set (currency_patterns ex_rt). search p usd_text = None"
    using usd_text_no_rub usd_text_no_usd usd_text_no_eur by (simp add: currency_patterns_def)
  have d: "list_ex (isdecimal ex_rt) usd_text"
    by (simp add: usd_text_def asc_def ascii_digit_def)
  have t: "first_numeric_token ex_rt usd_text = Some (asc ''2500'')"
    by (simp add: first_numeric_token_def numeric_prefix_def usd_text_def asc_def
          ascii_digit_def)
  have f: "py_float ex_rt (asc ''2500'') = Some (Fin 2500)"
    by (simp add: read_float_def asc_def ascii_digit_def dec_val_def)
  from detect_amount_default [OF c d] t f
  have a: "detect_amount ex_rt usd_text = Inr (Fin 2500, RUB)" by (simp add: to_amount_def)
  have nb: "\<not> has_braces usd_text" by (simp add: has_braces_def usd_text_def asc_def)
  have u: "currency (regex_record ex_rt usd_text (Fin 2500) RUB) = RUB"
    by (simp add: regex_record_def RUB_def asc_def upper_cp_def)
  from usd_text_no_usd a parse_regex [OF nb a] u show ?thesis by blast
qed

end
